theory Spec2Isabelle
  imports Complex_Main "HOL-Library.Char_ord" "HOL-Library.List_Lexorder" "HOL-Library.Sublist"
    "HOL-Library.Multiset" "HOL-Library.Word" "HOL-Library.AList" "HOL-Library.Log_Nat"
begin


section \<open>OinkTrack dataset builder: \<open>make_dataset.py\<close>\<close>

text \<open>
  A shallow embedding of the conversion script. Exceptions of the Python code are values
  of \<open>error\<close>; a function that can raise returns \<open>error + 'a\<close> with \<open>Inl\<close> the
  exception. What the script does to the outside world (subprocesses, files written,
  lines printed) is a list of \<open>action\<close>s that the functions extend.
\<close>


datatype error = ValueError | KeyError | RuntimeError | AttributeError
  | CalledProcessError | FileNotFoundError | NotADirectoryError | OverflowError

subsection \<open>Python numbers\<close>

text \<open>
  The numbers of \<open>annotation.json\<close> after \<open>json.loads\<close>. A JSON number without
  fraction and exponent becomes a Python \<open>int\<close>, which is unbounded; every other number
  becomes a \<open>float\<close>, the binary64 value nearest to the literal, and \<open>json.loads\<close> also
  accepts \<open>Infinity\<close>, \<open>-Infinity\<close> and \<open>NaN\<close>. A finite float is given by its exact
  value, a rational. The two zeros of binary64 are one value here: they compare equal,
  a difference of zeros is a zero, and \<open>int(round(z))\<close> is \<open>0\<close> for both, so no row
  depends on the sign of a zero.
\<close>

datatype float64 = Fin rat | PInf | NInf | NaN

datatype pynum = PyInt int | PyFloat float64

text \<open>
  The nearest integer, a tie going to the even neighbour: Python's \<open>round\<close> on a
  finite float, and the rounding of the significand in binary64 arithmetic.
\<close>

definition half_even :: "rat \<Rightarrow> int" where
  "half_even q =
     (let f = \<lfloor>q\<rfloor>; d = q - of_int f
      in if d < 1 / 2 then f
         else if 1 / 2 < d then f + 1
         else if even f then f else f + 1)"

text \<open>
  The binary exponent of a positive rational \<open>a\<close>: the \<open>e\<close> with
  \<open>2 ^ e \<le> a < 2 ^ (e + 1)\<close>, found from the bit lengths of numerator and denominator.
\<close>

definition ilog2 :: "rat \<Rightarrow> int" where
  "ilog2 a =
     (let k = bitlen (fst (quotient_of a)) - bitlen (snd (quotient_of a))
      in if 2 powi k \<le> a then k else k - 1)"

text \<open>
  Rounding of an exact result to binary64, round-to-nearest ties-to-even: 53 significant
  bits for a normal number, multiples of \<open>2 ^ -1074\<close> below \<open>2 ^ -1022\<close>, and an
  infinity when the rounded value reaches \<open>2 ^ 1024\<close>.
\<close>

definition round_to_double :: "rat \<Rightarrow> float64" where
  "round_to_double q =
     (if q = 0 then Fin 0
      else
        let a = \<bar>q\<bar>;
            e = max (ilog2 a) (- 1022);
            ulp = 2 powi (e - 52);
            v = of_int (half_even (a / ulp)) * ulp
        in if 2 powi 1024 \<le> v then (if 0 < q then PInf else NInf)
           else Fin (if 0 < q then v else - v))"

text \<open>
  \<open>float(literal)\<close> as \<open>json.loads\<close> applies it to a number with a fraction or an
  exponent: the literal, whose exact value is \<open>q\<close>, is rounded to binary64.
\<close>

definition json_float :: "rat \<Rightarrow> pynum" where
  "json_float q = PyFloat (round_to_double q)"

text \<open>Subtraction of two floats.\<close>

fun fl_sub :: "float64 \<Rightarrow> float64 \<Rightarrow> float64" where
  "fl_sub NaN _ = NaN"
| "fl_sub _ NaN = NaN"
| "fl_sub PInf PInf = NaN"
| "fl_sub NInf NInf = NaN"
| "fl_sub PInf _ = PInf"
| "fl_sub NInf _ = NInf"
| "fl_sub _ PInf = NInf"
| "fl_sub _ NInf = PInf"
| "fl_sub (Fin a) (Fin b) = round_to_double (a - b)"

fun fl_abs :: "float64 \<Rightarrow> float64" where
  "fl_abs (Fin a) = Fin \<bar>a\<bar>"
| "fl_abs PInf = PInf"
| "fl_abs NInf = PInf"
| "fl_abs NaN = NaN"

text \<open>\<open>a < b\<close> on floats: false as soon as one side is \<open>NaN\<close>.\<close>

fun fl_lt :: "float64 \<Rightarrow> float64 \<Rightarrow> bool" where
  "fl_lt (Fin a) (Fin b) \<longleftrightarrow> a < b"
| "fl_lt (Fin a) PInf \<longleftrightarrow> True"
| "fl_lt NInf (Fin b) \<longleftrightarrow> True"
| "fl_lt NInf PInf \<longleftrightarrow> True"
| "fl_lt _ _ \<longleftrightarrow> False"

text \<open>
  Python compares an \<open>int\<close> with a \<open>float\<close> by their exact values, without converting
  the \<open>int\<close>; \<open>exact\<close> places both kinds of number on one scale for that purpose.
\<close>

fun exact :: "pynum \<Rightarrow> float64" where
  "exact (PyInt n) = Fin (of_int n)"
| "exact (PyFloat f) = f"

definition py_lt :: "pynum \<Rightarrow> pynum \<Rightarrow> bool" where
  "py_lt a b = fl_lt (exact a) (exact b)"

text \<open>\<open>min(a, b)\<close> keeps its first argument unless the second is smaller.\<close>

definition py_min :: "pynum \<Rightarrow> pynum \<Rightarrow> pynum" where
  "py_min a b = (if py_lt b a then b else a)"

text \<open>
  An \<open>int\<close> operand of a float operation is converted to the nearest float;
  \<open>OverflowError\<close> when that is beyond the largest finite float.
\<close>

fun as_double :: "pynum \<Rightarrow> error + float64" where
  "as_double (PyFloat f) = Inr f"
| "as_double (PyInt n) =
     (case round_to_double (of_int n) of
        Fin q \<Rightarrow> Inr (Fin q)
      | _ \<Rightarrow> Inl OverflowError)"

text \<open>\<open>a - b\<close>: exact on two \<open>int\<close>s, a float subtraction otherwise.\<close>

fun py_sub :: "pynum \<Rightarrow> pynum \<Rightarrow> error + pynum" where
  "py_sub (PyInt m) (PyInt n) = Inr (PyInt (m - n))"
| "py_sub a b =
     (case as_double a of
        Inl e \<Rightarrow> Inl e
      | Inr fa \<Rightarrow>
          (case as_double b of
             Inl e \<Rightarrow> Inl e
           | Inr fb \<Rightarrow> Inr (PyFloat (fl_sub fa fb))))"

fun py_abs :: "pynum \<Rightarrow> pynum" where
  "py_abs (PyInt n) = PyInt \<bar>n\<bar>"
| "py_abs (PyFloat f) = PyFloat (fl_abs f)"

text \<open>
  \<open>int(round(v))\<close>: an \<open>int\<close> is returned as it is, a finite float is rounded to the
  nearest integer with ties to even, an infinity raises \<open>OverflowError\<close> and \<open>NaN\<close>
  raises \<open>ValueError\<close>.
\<close>

fun py_round :: "pynum \<Rightarrow> error + int" where
  "py_round (PyInt n) = Inr n"
| "py_round (PyFloat (Fin q)) = Inr (half_even q)"
| "py_round (PyFloat PInf) = Inl OverflowError"
| "py_round (PyFloat NInf) = Inl OverflowError"
| "py_round (PyFloat NaN) = Inl ValueError"

subsection \<open>Annotation document\<close>

text \<open>
  \<open>annotation.json\<close> after \<open>json.loads\<close>: \<open>data["frames"]\<close> is a list of frame
  records, each with an \<open>index\<close> and a list of \<open>figures\<close>; a figure has an
  \<open>objectId\<close> and \<open>geometry.points.exterior\<close>, a list of points, each a list of
  numbers.
\<close>

record figure =
  objectId :: int
  exterior :: "pynum list list"

record frame =
  index :: int
  figures :: "figure list"

type_synonym document = "frame list"

text \<open>
  One line of \<open>gt.txt\<close>: the nine comma-separated fields of the f-string, in order, each
  the integer that the f-string prints in decimal.
\<close>

record gt_row =
  fidx :: int
  ident :: int
  bb_x :: int
  bb_y :: int
  bb_w :: int
  bb_h :: int
  conf :: int
  cls :: int
  vis :: int

text \<open>
  \<open>object_ids = sorted({fig["objectId"] for fr in data["frames"] for fig in fr["figures"]})\<close>:
  the set comprehension drops duplicates, \<open>sorted\<close> orders ascending.
\<close>

definition object_ids :: "document \<Rightarrow> int list" where
  "object_ids data = sort (remdups (concat (map (\<lambda>fr. map objectId (figures fr)) data)))"

text \<open>
  \<open>id_map = {oid: i + 1 for i, oid in enumerate(object_ids)}\<close>: the dictionary is
  filled in enumeration order, a later entry for the same key replacing an earlier one.
\<close>

definition dict_of :: "('k \<times> 'v) list \<Rightarrow> ('k \<rightharpoonup> 'v)" where
  "dict_of kvs = fold (\<lambda>(k, v) m. m(k \<mapsto> v)) kvs Map.empty"

definition id_map :: "document \<Rightarrow> (int \<rightharpoonup> int)" where
  "id_map data = dict_of (map (\<lambda>(i, oid). (oid, int i + 1)) (enumerate 0 (object_ids data)))"

text \<open>
  \<open>(x1, y1), (x2, y2) = fig["geometry"]["points"]["exterior"]\<close>: unpacking raises
  \<open>ValueError\<close> unless there are exactly two points of exactly two coordinates each.
\<close>

fun unpack_exterior :: "pynum list list \<Rightarrow> error + ((pynum \<times> pynum) \<times> (pynum \<times> pynum))" where
  "unpack_exterior [[x1, y1], [x2, y2]] = Inr ((x1, y1), (x2, y2))"
| "unpack_exterior _ = Inl ValueError"

text \<open>
  The body of the inner loop: the row written for one figure of a frame. The statements
  run in the order of the source: the unpacking, \<open>x, y = min(x1, x2), min(y1, y2)\<close>,
  \<open>w, h = abs(x2 - x1), abs(y2 - y1)\<close>, then the f-string, whose fields are evaluated
  from left to right: \<open>id_map[fig['objectId']]\<close>, \<open>int(round(x))\<close>, \<open>int(round(y))\<close>,
  \<open>int(round(w))\<close>, \<open>int(round(h))\<close>. The first exception ends the function.
\<close>

definition mot_row :: "(int \<rightharpoonup> int) \<Rightarrow> int \<Rightarrow> figure \<Rightarrow> error + gt_row" where
  "mot_row idm fi fig =
     (case unpack_exterior (exterior fig) of
        Inl e \<Rightarrow> Inl e
      | Inr ((x1, y1), (x2, y2)) \<Rightarrow>
          (let x = py_min x1 x2; y = py_min y1 y2
           in case py_sub x2 x1 of
                Inl e \<Rightarrow> Inl e
              | Inr dx \<Rightarrow>
          (case py_sub y2 y1 of
                Inl e \<Rightarrow> Inl e
              | Inr dy \<Rightarrow>
          (let w = py_abs dx; h = py_abs dy
           in case idm (objectId fig) of
                None \<Rightarrow> Inl KeyError
              | Some i \<Rightarrow>
          (case py_round x of
                Inl e \<Rightarrow> Inl e
              | Inr rx \<Rightarrow>
          (case py_round y of
                Inl e \<Rightarrow> Inl e
              | Inr ry \<Rightarrow>
          (case py_round w of
                Inl e \<Rightarrow> Inl e
              | Inr rw \<Rightarrow>
          (case py_round h of
                Inl e \<Rightarrow> Inl e
              | Inr rh \<Rightarrow>
                  Inr \<lparr>fidx = fi, ident = i,
                       bb_x = rx, bb_y = ry, bb_w = rw, bb_h = rh,
                       conf = 1, cls = 1, vis = 1\<rparr>))))))))"

text \<open>\<open>for fig in fr["figures"]\<close>: rows in figure order; the first exception ends the run.\<close>

fun emit_figures :: "(int \<rightharpoonup> int) \<Rightarrow> int \<Rightarrow> figure list \<Rightarrow> error + gt_row list" where
  "emit_figures idm fi [] = Inr []"
| "emit_figures idm fi (fig # figs) =
     (case mot_row idm fi fig of
        Inl e \<Rightarrow> Inl e
      | Inr r \<Rightarrow>
          (case emit_figures idm fi figs of
             Inl e \<Rightarrow> Inl e
           | Inr rs \<Rightarrow> Inr (r # rs)))"

text \<open>\<open>for fr in data["frames"]\<close> with \<open>fidx = fr["index"] + 1\<close>.\<close>

fun emit_frames :: "(int \<rightharpoonup> int) \<Rightarrow> frame list \<Rightarrow> error + gt_row list" where
  "emit_frames idm [] = Inr []"
| "emit_frames idm (fr # frs) =
     (case emit_figures idm (index fr + 1) (figures fr) of
        Inl e \<Rightarrow> Inl e
      | Inr rs \<Rightarrow>
          (case emit_frames idm frs of
             Inl e \<Rightarrow> Inl e
           | Inr rss \<Rightarrow> Inr (rs @ rss)))"

text \<open>
  \<open>sup_to_mot\<close>: the identity map is computed from the whole document, then the rows
  are written. The result is the content of \<open>gt.txt\<close> as its list of rows.
\<close>

definition sup_to_mot :: "document \<Rightarrow> error + gt_row list" where
  "sup_to_mot data = emit_frames (id_map data) data"

subsection \<open>Paths and directory trees\<close>

text \<open>
  A \<open>pathlib\<close> path is the list of its parts. Paths are compared part by part, each part
  as a string, which is the order \<open>sorted\<close> uses on a list of paths.
\<close>

type_synonym path = "string list"

text \<open>\<open>Path.name\<close>: the last part, the empty string for the empty path.\<close>

definition name :: "path \<Rightarrow> string" where
  "name p = (if p = [] then [] else last p)"

text \<open>\<open>str(p)\<close> and \<open>p.as_posix()\<close>: the parts joined by a slash.\<close>

fun str :: "path \<Rightarrow> string" where
  "str [] = ''.''"
| "str [x] = x"
| "str (x # y # ys) = x @ ''/'' @ str (y # ys)"

text \<open>
  \<open>Path.stem\<close>: the name without its last suffix. With \<open>i\<close> the position of the last
  dot, the suffix starts at \<open>i\<close> when \<open>0 < i < len(name) - 1\<close>; otherwise there is none.
\<close>

definition rfind_dot :: "string \<Rightarrow> nat option" where
  "rfind_dot s =
     (if CHR ''.'' \<in> set s
      then Some (length s - 1 - length (takeWhile (\<lambda>c. c \<noteq> CHR ''.'') (rev s)))
      else None)"

definition stem :: "string \<Rightarrow> string" where
  "stem s =
     (case rfind_dot s of
        None \<Rightarrow> s
      | Some i \<Rightarrow> if 0 < i \<and> i < length s - 1 then take i s else s)"

text \<open>\<open>p.with_suffix(".txt")\<close>: the stem of the name followed by the new suffix.\<close>

definition with_suffix_txt :: "path \<Rightarrow> path" where
  "with_suffix_txt p = butlast p @ [stem (name p) @ ''.txt'']"

text \<open>
  A file system tree. A directory lists its entries in the order in which the operating
  system enumerates them, which is the order \<open>iterdir\<close> and \<open>glob\<close> yield them in.
\<close>

datatype node = File | Dir "(string \<times> node) list"

fun is_dir :: "node \<Rightarrow> bool" where
  "is_dir (Dir es) = True"
| "is_dir File = False"

fun entries :: "node \<Rightarrow> (string \<times> node) list" where
  "entries (Dir es) = es"
| "entries File = []"

fun child :: "node \<Rightarrow> string \<Rightarrow> node option" where
  "child (Dir es) n = map_of es n"
| "child File n = None"

text \<open>
  What is at a path below a node, if anything: \<open>(tree / a / b).exists()\<close> is
  \<open>resolve tree [a, b] \<noteq> None\<close>.
\<close>

fun resolve :: "node \<Rightarrow> path \<Rightarrow> node option" where
  "resolve nd [] = Some nd"
| "resolve nd (n # p) = (case child nd n of None \<Rightarrow> None | Some c \<Rightarrow> resolve c p)"

text \<open>The patterns \<open>*.ts\<close> and \<open>*.jpg\<close>: the name ends with the suffix.\<close>

definition is_ts :: "string \<Rightarrow> bool" where
  "is_ts n \<longleftrightarrow> suffix ''.ts'' n"

text \<open>
  \<open>d.glob(pattern)\<close>: the entries of \<open>d\<close> itself whose name matches, files and
  directories alike; nothing when \<open>d\<close> is not a directory.
\<close>

definition glob :: "(string \<Rightarrow> bool) \<Rightarrow> path \<Rightarrow> node \<Rightarrow> path list" where
  "glob pat d nd = map (\<lambda>(n, c). d @ [n]) (filter (\<lambda>(n, c). pat n) (entries nd))"

text \<open>
  \<open>d.rglob(pattern)\<close>: the matching entries of \<open>d\<close> and of every directory below it,
  at any depth, as paths relative to \<open>d\<close>.
\<close>

fun rglob :: "(string \<Rightarrow> bool) \<Rightarrow> node \<Rightarrow> path list" where
  "rglob pat File = []"
| "rglob pat (Dir es) =
     concat (map (\<lambda>(n, c). (if pat n then [[n]] else []) @ map ((#) n) (rglob pat c)) es)"

subsection \<open>Configuration\<close>

definition SPLIT :: "(string \<times> string list) list" where
  "SPLIT =
     [(''train'', [''C1D-1'', ''C1D-3'', ''C1N-1'', ''C1N-3'', ''C2D-2'', ''C2N-2'', ''C2ND-1'']),
      (''val'', [''C1ND-1'', ''C2N-3'']),
      (''test'', [''C2D-1'', ''C1DN-1'', ''C1D-2'', ''C1N-2'', ''C2N-1'', ''C2N-4'', ''C2DN-1''])]"

text \<open>\<open>SPLIT[key]\<close> for a key of the table.\<close>

definition split_of :: "string \<Rightarrow> string list" where
  "split_of key = (case map_of SPLIT key of Some seqs \<Rightarrow> seqs | None \<Rightarrow> [])"

definition OUT_DIR :: path where
  "OUT_DIR = [''dataset'']"

subsection \<open>Pre-flight validation\<close>

text \<open>
  The body of the loop of \<open>sanity_check\<close> for one sequence: \<open>tree\<close> is the tree at
  \<open>ROOT\<close>, \<open>issues\<close> the list collected so far. A missing directory adds one entry and
  goes on to the next sequence (\<open>continue\<close>).
\<close>

definition check_sequence :: "node \<Rightarrow> string \<Rightarrow> string list \<Rightarrow> string list" where
  "check_sequence tree seq issues =
     (if resolve tree [seq] = None then issues @ [seq @ '': directory not found'']
      else
        let issues1 =
              (case resolve tree [seq, ''raw_videos''] of
                 None \<Rightarrow> issues @ [seq @ '': missing raw_videos/'']
               | Some raw_dir \<Rightarrow>
                   if rglob is_ts raw_dir = []
                   then issues @ [seq @ '': no .ts clips found in raw_videos/'']
                   else issues)
        in if resolve tree [seq, ''annotation.json''] = None
           then issues1 @ [seq @ '': missing annotation.json'']
           else issues1)"

fun check_sequences :: "node \<Rightarrow> string list \<Rightarrow> string list \<Rightarrow> string list" where
  "check_sequences tree [] issues = issues"
| "check_sequences tree (seq # seqs) issues =
     check_sequences tree seqs (check_sequence tree seq issues)"

definition sanity_check :: "node \<Rightarrow> string list" where
  "sanity_check tree =
     check_sequences tree (split_of ''train'' @ split_of ''val'' @ split_of ''test'') []"

subsection \<open>External effects\<close>

text \<open>
  What the script prints; the constructors stand for the literal texts, which contain
  symbols outside ASCII.
\<close>

datatype line =
    MaskNotFound path
  | NoVideoProduced string
  | MissingHeader
  | Problem string
  | Converting string string
  | AllProcessed path

text \<open>
  The effects of a run, in order: a subprocess that exited with status 0, a text file
  written, a file removed, a directory created, a temporary directory removed, a line
  printed.
\<close>

datatype action =
    Run "string list"
  | WriteText path string
  | Unlink path
  | Mkdir path
  | Cleanup path
  | Print line

text \<open>
  \<open>_run\<close>: \<open>subprocess.run(cmd, check=True)\<close> raises \<open>CalledProcessError\<close> when the
  command exits with a status other than 0. The external tool is the parameter \<open>ok\<close>:
  whether the command, run after the effects so far, exits with status 0.
\<close>

definition run :: "(action list \<Rightarrow> string list \<Rightarrow> bool) \<Rightarrow> string list \<Rightarrow> action list
    \<Rightarrow> error + action list" where
  "run ok cmd log0 = (if ok log0 cmd then Inr (log0 @ [Run cmd]) else Inl CalledProcessError)"

definition ts_to_mp4 :: "(action list \<Rightarrow> string list \<Rightarrow> bool) \<Rightarrow> path \<Rightarrow> path \<Rightarrow> action list
    \<Rightarrow> error + action list" where
  "ts_to_mp4 ok ts_path mp4_path log0 =
     run ok [''ffmpeg'', ''-y'', ''-loglevel'', ''error'', ''-i'', str ts_path,
             ''-c'', ''copy'', str mp4_path] log0"

definition concat_mp4s :: "(action list \<Rightarrow> string list \<Rightarrow> bool) \<Rightarrow> path list \<Rightarrow> path
    \<Rightarrow> action list \<Rightarrow> error + action list" where
  "concat_mp4s ok mp4_paths output_path log0 =
     (let lst_file = with_suffix_txt output_path;
          log1 = log0 @ [WriteText lst_file
                   (concat (map (\<lambda>p. ''file '' @ [CHR 0x27] @ str p @ [CHR 0x27, CHR 0x0A])
                      mp4_paths))]
      in case run ok [''ffmpeg'', ''-y'', ''-loglevel'', ''error'', ''-f'', ''concat'',
                      ''-safe'', ''0'', ''-i'', str lst_file, ''-c'', ''copy'',
                      str output_path] log1 of
           Inl e \<Rightarrow> Inl e
         | Inr log2 \<Rightarrow> Inr (log2 @ [Unlink lst_file]))"

definition downsample_to_1fps :: "(action list \<Rightarrow> string list \<Rightarrow> bool) \<Rightarrow> path \<Rightarrow> path
    \<Rightarrow> action list \<Rightarrow> error + action list" where
  "downsample_to_1fps ok src dst log0 =
     run ok [''ffmpeg'', ''-y'', ''-loglevel'', ''error'', ''-i'', str src,
             ''-vf'', ''fps=1'', str dst] log0"

definition extract_frames :: "(action list \<Rightarrow> string list \<Rightarrow> bool) \<Rightarrow> path \<Rightarrow> path
    \<Rightarrow> action list \<Rightarrow> error + action list" where
  "extract_frames ok video dst_dir log0 =
     run ok [''ffmpeg'', ''-y'', ''-loglevel'', ''error'', ''-i'', str video,
             ''-vf'', ''fps=1'', ''-start_number'', ''1'', str (dst_dir @ [''%08d.jpg''])]
       (log0 @ [Mkdir dst_dir])"

subsection \<open>Video assembly\<close>

text \<open>
  \<open>segment_dirs = [d for d in raw_dir.iterdir() if d.is_dir()] or [raw_dir]\<close>, each
  segment with the tree found there. \<open>iterdir\<close> raises when \<open>raw_dir\<close> is missing or
  is not a directory.
\<close>

fun segment_dirs :: "path \<Rightarrow> node option \<Rightarrow> error + (path \<times> node) list" where
  "segment_dirs raw_dir None = Inl FileNotFoundError"
| "segment_dirs raw_dir (Some File) = Inl NotADirectoryError"
| "segment_dirs raw_dir (Some (Dir es)) =
     (let ds = map (\<lambda>(n, c). (raw_dir @ [n], c)) (filter (\<lambda>(n, c). is_dir c) es)
      in Inr (if ds = [] then [(raw_dir, Dir es)] else ds))"

text \<open>The inner loop: every clip of a segment, in the given order, copied to an mp4.\<close>

fun convert_clips :: "(action list \<Rightarrow> string list \<Rightarrow> bool) \<Rightarrow> path \<Rightarrow> string \<Rightarrow> path list
    \<Rightarrow> path list \<Rightarrow> action list \<Rightarrow> error + (path list \<times> action list)" where
  "convert_clips ok tmp_dir seg_name [] mp4_list log0 = Inr (mp4_list, log0)"
| "convert_clips ok tmp_dir seg_name (ts_file # ts_files) mp4_list log0 =
     (let mp4_path = tmp_dir @ [seg_name @ ''_'' @ stem (name ts_file) @ ''.mp4'']
      in case ts_to_mp4 ok ts_file mp4_path log0 of
           Inl e \<Rightarrow> Inl e
         | Inr log1 \<Rightarrow> convert_clips ok tmp_dir seg_name ts_files (mp4_list @ [mp4_path]) log1)"

text \<open>
  The outer loop over the sorted segments; a segment without clips is passed over
  (\<open>continue\<close>).
\<close>

fun assemble_segments :: "(action list \<Rightarrow> string list \<Rightarrow> bool) \<Rightarrow> path \<Rightarrow> (path \<times> node) list
    \<Rightarrow> path list \<Rightarrow> action list \<Rightarrow> error + (path list \<times> action list)" where
  "assemble_segments ok tmp_dir [] segments_1fps log0 = Inr (segments_1fps, log0)"
| "assemble_segments ok tmp_dir ((seg, nd) # segs) segments_1fps log0 =
     (case convert_clips ok tmp_dir (name seg) (sort (glob is_ts seg nd)) [] log0 of
        Inl e \<Rightarrow> Inl e
      | Inr (mp4_list, log1) \<Rightarrow>
          if mp4_list = [] then assemble_segments ok tmp_dir segs segments_1fps log1
          else
            let seg_cat = tmp_dir @ [name seg @ ''_cat.mp4'']
            in case concat_mp4s ok mp4_list seg_cat log1 of
                 Inl e \<Rightarrow> Inl e
               | Inr log2 \<Rightarrow>
                   let seg_1fps = tmp_dir @ [name seg @ ''_1fps.mp4'']
                   in case downsample_to_1fps ok seg_cat seg_1fps log2 of
                        Inl e \<Rightarrow> Inl e
                      | Inr log3 \<Rightarrow>
                          assemble_segments ok tmp_dir segs (segments_1fps @ [seg_1fps]) log3)"

text \<open>
  \<open>build_1fps_video\<close>: the result is the path of the assembled video, or \<open>None\<close> when
  no segment had a clip, together with the effects.
\<close>

definition build_1fps_video :: "(action list \<Rightarrow> string list \<Rightarrow> bool) \<Rightarrow> path \<Rightarrow> node option
    \<Rightarrow> path \<Rightarrow> action list \<Rightarrow> error + (path option \<times> action list)" where
  "build_1fps_video ok raw_dir raw tmp_dir log0 =
     (case segment_dirs raw_dir raw of
        Inl e \<Rightarrow> Inl e
      | Inr dirs \<Rightarrow>
          (case assemble_segments ok tmp_dir (sort_key fst dirs) [] log0 of
             Inl e \<Rightarrow> Inl e
           | Inr (segments_1fps, log1) \<Rightarrow>
               (case segments_1fps of
                  [] \<Rightarrow> Inr (None, log1)
                | [seg_1fps] \<Rightarrow> Inr (Some seg_1fps, log1)
                | _ \<Rightarrow>
                    let merged = tmp_dir @ [''merged_1fps.mp4'']
                    in case concat_mp4s ok segments_1fps merged log1 of
                         Inl e \<Rightarrow> Inl e
                       | Inr log2 \<Rightarrow> Inr (Some merged, log2))))"

subsection \<open>Per-sequence pipeline and entry point\<close>

text \<open>
  \<open>process_sequence\<close>. The temporary directory is the one \<open>tempfile\<close> hands out
  (\<open>mkdtemp\<close>, a function of the effects so far); it is removed when the \<open>with\<close> block
  is left. The three stages after frame extraction (\<open>apply_mask\<close>, \<open>sup_to_mot\<close>,
  \<open>write_seqinfo\<close>), which are modelled on their own, enter here as \<open>finish\<close>.
\<close>

definition process_sequence :: "(action list \<Rightarrow> string list \<Rightarrow> bool) \<Rightarrow> (action list \<Rightarrow> path)
    \<Rightarrow> (string \<Rightarrow> string \<Rightarrow> action list \<Rightarrow> error + action list)
    \<Rightarrow> path \<Rightarrow> node \<Rightarrow> string \<Rightarrow> string \<Rightarrow> action list \<Rightarrow> error + action list" where
  "process_sequence ok mkdtemp finish ROOT tree seq_name split log0 =
     (let seq_dir = ROOT @ [seq_name];
          raw_dir = seq_dir @ [''raw_videos''];
          dst_seq = OUT_DIR @ [split, seq_name];
          img1 = dst_seq @ [''img1''];
          gt_dir = dst_seq @ [''gt''];
          log1 = log0 @ [Mkdir gt_dir];
          td = mkdtemp log1
      in case build_1fps_video ok raw_dir (resolve tree [seq_name, ''raw_videos'']) td log1 of
           Inl e \<Rightarrow> Inl e
         | Inr (None, log2) \<Rightarrow> Inr (log2 @ [Print (NoVideoProduced seq_name), Cleanup td])
         | Inr (Some merged_video, log2) \<Rightarrow>
             (case extract_frames ok merged_video img1 log2 of
                Inl e \<Rightarrow> Inl e
              | Inr log3 \<Rightarrow> finish seq_name split (log3 @ [Cleanup td])))"

text \<open>\<open>for sp, sequences in SPLIT.items(): for seq in sequences: ...\<close>\<close>

fun process_all :: "(action list \<Rightarrow> string list \<Rightarrow> bool) \<Rightarrow> (action list \<Rightarrow> path)
    \<Rightarrow> (string \<Rightarrow> string \<Rightarrow> action list \<Rightarrow> error + action list)
    \<Rightarrow> path \<Rightarrow> node \<Rightarrow> (string \<times> string) list \<Rightarrow> action list \<Rightarrow> error + action list" where
  "process_all ok mkdtemp finish ROOT tree [] log0 = Inr log0"
| "process_all ok mkdtemp finish ROOT tree ((sp, seq) # rest) log0 =
     (case process_sequence ok mkdtemp finish ROOT tree seq sp (log0 @ [Print (Converting seq sp)]) of
        Inl e \<Rightarrow> Inl e
      | Inr log1 \<Rightarrow> process_all ok mkdtemp finish ROOT tree rest log1)"

text \<open>The seqmap files: one per split with a non-empty list, the names joined by newlines.\<close>

fun join_lines :: "string list \<Rightarrow> string" where
  "join_lines [] = []"
| "join_lines [x] = x"
| "join_lines (x # y # ys) = x @ [CHR 0x0A] @ join_lines (y # ys)"

definition write_seqmaps :: "(string \<times> string list) list \<Rightarrow> action list \<Rightarrow> action list" where
  "write_seqmaps splits log0 =
     log0 @ map (\<lambda>(sp, sequences). WriteText (OUT_DIR @ [sp @ ''_seqmap.txt'']) (join_lines sequences))
             (filter (\<lambda>(sp, sequences). sequences \<noteq> []) splits)"

datatype exit_status = Success | FfmpegNotFound | OpenCVNotFound | PleaseFixIssues

text \<open>
  The entry point. \<open>which_ffmpeg\<close> and \<open>has_cv2\<close> are the two environment checks. The
  result is the list of effects and how the process ended, or the exception that ended it.
\<close>

definition main :: "(action list \<Rightarrow> string list \<Rightarrow> bool) \<Rightarrow> (action list \<Rightarrow> path)
    \<Rightarrow> (string \<Rightarrow> string \<Rightarrow> action list \<Rightarrow> error + action list)
    \<Rightarrow> bool \<Rightarrow> bool \<Rightarrow> path \<Rightarrow> node \<Rightarrow> error + (action list \<times> exit_status)" where
  "main ok mkdtemp finish which_ffmpeg has_cv2 ROOT tree =
     (if \<not> which_ffmpeg then Inr ([], FfmpegNotFound)
      else if \<not> has_cv2 then Inr ([], OpenCVNotFound)
      else
        let problems = sanity_check tree
        in if problems \<noteq> []
           then Inr (Print MissingHeader # map (\<lambda>p. Print (Problem p)) problems, PleaseFixIssues)
           else
             (case process_all ok mkdtemp finish ROOT tree
                     (concat (map (\<lambda>(sp, sequences). map (Pair sp) sequences) SPLIT))
                     [Mkdir OUT_DIR] of
                Inl e \<Rightarrow> Inl e
              | Inr log0 \<Rightarrow> Inr (write_seqmaps SPLIT log0 @ [Print (AllProcessed OUT_DIR)], Success)))"

subsection \<open>Images\<close>

text \<open>
  A decoded image is a \<open>numpy\<close> array of \<open>uint8\<close>: rows of pixels, a pixel being the
  list of its channel values; a grayscale image has one value per pixel. Arithmetic on
  \<open>uint8\<close> wraps modulo 256.
\<close>

type_synonym pixel = "8 word list"
type_synonym image = "pixel list list"
type_synonym gray = "8 word list list"

text \<open>\<open>a.shape[:2]\<close>: height and width.\<close>

definition shape2 :: "'a list list \<Rightarrow> nat \<times> nat" where
  "shape2 a = (length a, case a of [] \<Rightarrow> 0 | r # _ \<Rightarrow> length r)"

text \<open>\<open>(mask > 0).astype(np.uint8)\<close>\<close>

definition binarize :: "gray \<Rightarrow> gray" where
  "binarize msk = map (map (\<lambda>v. if 0 < v then 1 else 0)) msk"

text \<open>
  \<open>img * m[..., None]\<close>: every channel of a pixel times the mask value at that pixel.
  The two arrays have the same height and width where the script evaluates this.
\<close>

definition multiply :: "image \<Rightarrow> gray \<Rightarrow> image" where
  "multiply img m = map2 (\<lambda>row mrow. map2 (\<lambda>px v. map (\<lambda>c. c * v) px) row mrow) img m"

text \<open>
  The image library. Its function \<open>resize\<close> has the signature
  \<open>cv2.resize(src, dsize[, dst[, fx[, fy[, interpolation]]]])\<close>: the third positional
  parameter is the output array \<open>dst\<close>, which has no bearing on the result, and the
  interpolation, the sixth, is \<open>INTER_LINEAR\<close> when it is not given. The resampling
  itself is the parameter \<open>resample\<close>. The scale factors \<open>fx\<close>, \<open>fy\<close> are only read
  when \<open>dsize\<close> is zero and are left out.
\<close>

datatype interpolation = INTER_NEAREST | INTER_LINEAR | INTER_CUBIC | INTER_AREA | INTER_LANCZOS4

definition cv2_resize :: "(interpolation \<Rightarrow> gray \<Rightarrow> nat \<times> nat \<Rightarrow> gray) \<Rightarrow> gray \<Rightarrow> nat \<times> nat
    \<Rightarrow> 'dst option \<Rightarrow> interpolation option \<Rightarrow> gray" where
  "cv2_resize resample src dsize dst interp =
     resample (case interp of None \<Rightarrow> INTER_LINEAR | Some i \<Rightarrow> i) src dsize"

text \<open>
  The mask used for one frame:
  \<open>m = mask; if img.shape[:2] != mask.shape: m = cv2.resize(mask, (img.shape[1], img.shape[0]), cv2.INTER_NEAREST)\<close>.
  The call passes three positional arguments.
\<close>

definition frame_mask :: "(interpolation \<Rightarrow> gray \<Rightarrow> nat \<times> nat \<Rightarrow> gray) \<Rightarrow> image \<Rightarrow> gray \<Rightarrow> gray" where
  "frame_mask resample img msk =
     (if shape2 img \<noteq> shape2 msk
      then cv2_resize resample msk (snd (shape2 img), fst (shape2 img)) (Some INTER_NEAREST) None
      else msk)"

definition is_jpg :: "string \<Rightarrow> bool" where
  "is_jpg n \<longleftrightarrow> suffix ''.jpg'' n"

text \<open>
  The frame directory is the list of its files with their contents. \<open>imread\<close> decodes
  a file's content, giving \<open>None\<close> when it cannot; \<open>imwrite\<close> encodes an image.
  The loop of \<open>apply_mask\<close> over the sorted frame names: an unreadable frame is passed
  over (\<open>continue\<close>), any other frame is overwritten with the masked image.
\<close>

fun mask_frames :: "('f \<Rightarrow> image option) \<Rightarrow> (image \<Rightarrow> 'f)
    \<Rightarrow> (interpolation \<Rightarrow> gray \<Rightarrow> nat \<times> nat \<Rightarrow> gray) \<Rightarrow> gray \<Rightarrow> string list
    \<Rightarrow> (string \<times> 'f) list \<Rightarrow> (string \<times> 'f) list" where
  "mask_frames imread imwrite resample msk [] files = files"
| "mask_frames imread imwrite resample msk (jpg # jpgs) files =
     (case map_of files jpg of
        None \<Rightarrow> mask_frames imread imwrite resample msk jpgs files
      | Some f \<Rightarrow>
          (case imread f of
             None \<Rightarrow> mask_frames imread imwrite resample msk jpgs files
           | Some img \<Rightarrow>
               let m = frame_mask resample img msk
               in mask_frames imread imwrite resample msk jpgs
                    (AList.update jpg (imwrite (multiply img m)) files)))"

text \<open>
  \<open>apply_mask\<close>: \<open>mask_read\<close> is what \<open>cv2.imread(str(mask_path), cv2.IMREAD_GRAYSCALE)\<close>
  returns, \<open>None\<close> for a file that is missing or cannot be decoded. The result is what
  was printed and the frame directory afterwards.
\<close>

definition apply_mask :: "('f \<Rightarrow> image option) \<Rightarrow> (image \<Rightarrow> 'f)
    \<Rightarrow> (interpolation \<Rightarrow> gray \<Rightarrow> nat \<times> nat \<Rightarrow> gray) \<Rightarrow> (string \<times> 'f) list \<Rightarrow> path
    \<Rightarrow> gray option \<Rightarrow> action list \<times> (string \<times> 'f) list" where
  "apply_mask imread imwrite resample img_dir mask_path mask_read =
     (case mask_read of
        None \<Rightarrow> ([Print (MaskNotFound mask_path)], img_dir)
      | Some mask0 \<Rightarrow>
          ([], mask_frames imread imwrite resample (binarize mask0)
                 (sort (filter is_jpg (map fst img_dir))) img_dir))"

subsection \<open>Sequence metadata\<close>

text \<open>The fields of \<open>seqinfo.ini\<close>.\<close>

record seqinfo =
  seq_name :: string
  imDir :: string
  frameRate :: nat
  seqLength :: nat
  imWidth :: nat
  imHeight :: nat
  imExt :: string

text \<open>
  \<open>write_seqinfo\<close>: \<open>img1\<close> is the content of the frame directory (empty when the
  directory is missing). With no frame the function raises \<open>RuntimeError\<close>; taking
  \<open>.shape\<close> of an image that \<open>cv2.imread\<close> could not read (\<open>None\<close>) raises
  \<open>AttributeError\<close>.
\<close>

definition write_seqinfo :: "('f \<Rightarrow> image option) \<Rightarrow> string \<Rightarrow> (string \<times> 'f) list
    \<Rightarrow> error + seqinfo" where
  "write_seqinfo imread sname img1 =
     (let imgs = sort (filter is_jpg (map fst img1))
      in case imgs of
           [] \<Rightarrow> Inl RuntimeError
         | first # _ \<Rightarrow>
             (case Option.bind (map_of img1 first) imread of
                None \<Rightarrow> Inl AttributeError
              | Some img \<Rightarrow>
                  Inr \<lparr>seq_name = sname, imDir = ''img1'', frameRate = 1,
                       seqLength = length imgs,
                       imWidth = snd (shape2 img), imHeight = fst (shape2 img),
                       imExt = ''.jpg''\<rparr>))"

subsection \<open>Notions used to state the properties of the annotation converter\<close>

text \<open>Every object identifier that occurs in some figure of some frame record.\<close>

definition all_object_ids :: "document \<Rightarrow> int set" where
  "all_object_ids data = (\<Union>fr \<in> set data. objectId ` set (figures fr))"

text \<open>A figure whose geometry is two corner points of two coordinates each.\<close>

definition well_formed :: "figure \<Rightarrow> bool" where
  "well_formed fig \<longleftrightarrow> length (exterior fig) = 2 \<and> list_all (\<lambda>p. length p = 2) (exterior fig)"

text \<open>The figures of a document in document order, each with its frame record.\<close>

definition figures_in_order :: "document \<Rightarrow> (frame \<times> figure) list" where
  "figures_in_order data = concat (map (\<lambda>fr. map (Pair fr) (figures fr)) data)"

text \<open>
  A number that is an \<open>int\<close> or a finite float, and the value of such a number (the
  value given to an infinity or to \<open>NaN\<close> is never used).
\<close>

fun is_finite :: "pynum \<Rightarrow> bool" where
  "is_finite (PyInt n) \<longleftrightarrow> True"
| "is_finite (PyFloat (Fin q)) \<longleftrightarrow> True"
| "is_finite (PyFloat _) \<longleftrightarrow> False"

fun val :: "pynum \<Rightarrow> rat" where
  "val (PyInt n) = of_int n"
| "val (PyFloat (Fin q)) = q"
| "val (PyFloat _) = 0"

fun is_int :: "pynum \<Rightarrow> bool" where
  "is_int (PyInt n) \<longleftrightarrow> True"
| "is_int (PyFloat f) \<longleftrightarrow> False"

text \<open>
  \<open>n\<close> is the integer nearest to \<open>q\<close>, and the even one of the two when \<open>q\<close> lies
  halfway between two integers.
\<close>

definition rounds_to :: "rat \<Rightarrow> int \<Rightarrow> bool" where
  "rounds_to q n \<longleftrightarrow>
     \<bar>of_int n - q\<bar> \<le> 1 / 2 \<and> (\<bar>of_int n - q\<bar> = 1 / 2 \<longrightarrow> even n)"

text \<open>The difference \<open>a - b\<close> is computed without an exception and is finite.\<close>

definition finite_diff :: "pynum \<Rightarrow> pynum \<Rightarrow> bool" where
  "finite_diff a b \<longleftrightarrow> (case py_sub a b of Inl e \<Rightarrow> False | Inr d \<Rightarrow> is_finite d)"

text \<open>
  A figure that the converter can write: two corner points of two finite coordinates
  each, whose differences per axis are finite.
\<close>

definition valid_box :: "figure \<Rightarrow> bool" where
  "valid_box fig \<longleftrightarrow>
     (case unpack_exterior (exterior fig) of
        Inl e \<Rightarrow> False
      | Inr ((x1, y1), (x2, y2)) \<Rightarrow>
          is_finite x1 \<and> is_finite y1 \<and> is_finite x2 \<and> is_finite y2 \<and>
          finite_diff x2 x1 \<and> finite_diff y2 y1)"

text \<open>A two-corner figure all of whose coordinates are \<open>int\<close>s.\<close>

definition int_box :: "figure \<Rightarrow> bool" where
  "int_box fig \<longleftrightarrow> well_formed fig \<and> list_all (list_all is_int) (exterior fig)"

text \<open>
  The same figure with its corner points listed in the other order, and two documents
  that differ at most in the order in which some figures list their corner points.
\<close>

definition swapped :: "figure \<Rightarrow> figure" where
  "swapped fig = fig\<lparr>exterior := rev (exterior fig)\<rparr>"

definition same_boxes :: "document \<Rightarrow> document \<Rightarrow> bool" where
  "same_boxes data data' \<longleftrightarrow>
     list_all2 (\<lambda>fr fr'. index fr' = index fr \<and>
         list_all2 (\<lambda>fig fig'. fig' = fig \<or> fig' = swapped fig) (figures fr) (figures fr'))
       data data'"

text \<open>
  The document of the end-to-end scenario: frame records with the indices 0 and 2, one
  figure each, with the object identifiers 7 and 3.
\<close>

definition example_document :: document where
  "example_document =
     [\<lparr>index = 0, figures = [\<lparr>objectId = 7,
         exterior = [[PyInt 50, PyInt 80], [PyInt 10, PyInt 20]]\<rparr>]\<rparr>,
      \<lparr>index = 2, figures = [\<lparr>objectId = 3,
         exterior = [[PyInt 1, PyInt 2], [PyInt 4, PyInt 6]]\<rparr>]\<rparr>]"

text \<open>The document of the scenario with the corner points of its first figure exchanged.\<close>

definition example_reversed :: document where
  "example_reversed =
     [\<lparr>index = 0, figures = [\<lparr>objectId = 7,
         exterior = [[PyInt 10, PyInt 20], [PyInt 50, PyInt 80]]\<rparr>]\<rparr>,
      \<lparr>index = 2, figures = [\<lparr>objectId = 3,
         exterior = [[PyInt 1, PyInt 2], [PyInt 4, PyInt 6]]\<rparr>]\<rparr>]"

subsection \<open>Notions used to state the properties of validation and assembly\<close>

text \<open>Every sequence of the split table, in the order of the table.\<close>

definition all_sequences :: "string list" where
  "all_sequences = concat (map snd SPLIT)"

text \<open>
  A sequence that passes pre-flight: its directory exists, it has a \<open>raw_videos\<close>
  entry with at least one clip somewhere below it, and an \<open>annotation.json\<close> entry.
\<close>

definition valid_sequence :: "node \<Rightarrow> string \<Rightarrow> bool" where
  "valid_sequence tree seq \<longleftrightarrow>
     resolve tree [seq] \<noteq> None \<and>
     (\<exists>raw_dir. resolve tree [seq, ''raw_videos''] = Some raw_dir \<and> rglob is_ts raw_dir \<noteq> []) \<and>
     resolve tree [seq, ''annotation.json''] \<noteq> None"

text \<open>
  A raw-video directory whose only clip lies below \<open>k\<close> nested sub-directories:
  \<open>nest 0\<close> holds the clip itself, \<open>nest 1\<close> holds it in a sub-directory, and so on.
\<close>

fun nest :: "nat \<Rightarrow> node" where
  "nest 0 = Dir [(''clip.ts'', File)]"
| "nest (Suc k) = Dir [(''sub'', nest k)]"

text \<open>The dataset root in which every sequence has the given raw-video directory and an annotation file.\<close>

definition dataset_with :: "node \<Rightarrow> node" where
  "dataset_with raw =
     Dir (map (\<lambda>seq. (seq, Dir [(''raw_videos'', raw), (''annotation.json'', File)]))
            all_sequences)"

text \<open>
  A tree cut off below depth \<open>k\<close>: the entries of the first \<open>k\<close> levels stay, with
  their names and kinds; directories at the last level are emptied.
\<close>

fun prune :: "nat \<Rightarrow> node \<Rightarrow> node" where
  "prune k File = File"
| "prune 0 (Dir es) = Dir []"
| "prune (Suc k) (Dir es) = Dir (map (\<lambda>(n, c). (n, prune k c)) es)"

text \<open>
  Two listings of the same directory tree that differ only in the order in which the
  entries of each directory are enumerated.
\<close>

inductive shuffled :: "node \<Rightarrow> node \<Rightarrow> bool" where
  shuffled_File: "shuffled File File"
| shuffled_Dir: "list_all2 (\<lambda>e e'. fst e = fst e' \<and> shuffled (snd e) (snd e')) es es' \<Longrightarrow>
     mset es'' = mset es' \<Longrightarrow> shuffled (Dir es) (Dir es'')"

text \<open>The sub-directories of the raw-video directory, as the paths of the segments.\<close>

definition subdirs :: "path \<Rightarrow> (string \<times> node) list \<Rightarrow> (path \<times> node) list" where
  "subdirs raw_dir es = map (\<lambda>(n, c). (raw_dir @ [n], c)) (filter (\<lambda>(n, c). is_dir c) es)"

text \<open>
  A dataset root with two of the sequences: one with an empty \<open>raw_videos\<close> and no
  annotation, one with an annotation and no \<open>raw_videos\<close>. All others are missing.
\<close>

definition broken_dataset :: node where
  "broken_dataset = Dir [(''C1D-1'', Dir [(''raw_videos'', Dir [])]), (''C1D-3'', Dir [(''annotation.json'', File)])]"

text \<open>One raw-video directory, enumerated in two different orders.\<close>

definition listing_a :: node where
  "listing_a =
     Dir [(''seg2'', Dir [(''b.ts'', File), (''a.ts'', File)]),
          (''notes.txt'', File),
          (''seg1'', Dir [(''x.ts'', File)])]"

definition listing_b :: node where
  "listing_b =
     Dir [(''seg1'', Dir [(''x.ts'', File)]),
          (''seg2'', Dir [(''a.ts'', File), (''b.ts'', File)]),
          (''notes.txt'', File)]"

subsection \<open>Notions used to state the properties of mask application\<close>

text \<open>What \<open>apply_mask\<close> leaves in a file: the file itself when it is unreadable, the masked image otherwise.\<close>

definition masked :: "('f \<Rightarrow> image option) \<Rightarrow> (image \<Rightarrow> 'f)
    \<Rightarrow> (interpolation \<Rightarrow> gray \<Rightarrow> nat \<times> nat \<Rightarrow> gray) \<Rightarrow> gray \<Rightarrow> 'f \<Rightarrow> 'f" where
  "masked imread imwrite resample msk f =
     (case imread f of
        None \<Rightarrow> f
      | Some img \<Rightarrow> imwrite (multiply img (frame_mask resample img msk)))"

text \<open>
  A frame directory with a readable frame, an unreadable one and a file that is no
  frame; a file's content is what decoding it gives. A mask of the frame's size.
\<close>

definition example_frames :: "(string \<times> image option) list" where
  "example_frames =
     [(''00000002.jpg'', Some [[[10, 20, 30], [40, 50, 60]]]),
      (''00000001.jpg'', None),
      (''notes.txt'', None)]"

definition example_mask :: gray where
  "example_mask = [[255, 0]]"

section \<open>Properties\<close>

subsection \<open>The identity map\<close>

lemma fold_upd_map_of:
  "fold (\<lambda>(k, v) m. m(k \<mapsto> v)) kvs m0 = m0 ++ map_of (rev kvs)"
proof (induction kvs arbitrary: m0)
  case Nil
  then show ?case by simp
next
  case (Cons kv kvs)
  obtain k v where kv: "kv = (k, v)" by (cases kv)
  have "fold (\<lambda>(k, v) m. m(k \<mapsto> v)) (kv # kvs) m0 = fold (\<lambda>(k, v) m. m(k \<mapsto> v)) kvs (m0(k \<mapsto> v))"
    by (simp add: kv)
  also have "\<dots> = m0(k \<mapsto> v) ++ map_of (rev kvs)"
    by (rule Cons.IH)
  also have "\<dots> = m0 ++ map_of (rev (kv # kvs))"
    by (simp add: kv map_add_assoc [symmetric])
  finally show ?case .
qed

lemma dict_of_map_of: "dict_of kvs = map_of (rev kvs)"
  by (simp add: dict_of_def fold_upd_map_of)

lemma set_object_ids: "set (object_ids data) = all_object_ids data"
  by (auto simp: object_ids_def all_object_ids_def)

lemma distinct_object_ids: "distinct (object_ids data)"
  by (simp add: object_ids_def)

lemma sorted_object_ids: "sorted (object_ids data)"
  by (simp add: object_ids_def)

lemma fst_numbered: "map fst (map (\<lambda>(i, oid). (oid, int i + 1)) (enumerate n xs)) = xs"
  by (induction xs arbitrary: n) simp_all

lemma dict_of_enumerate_iff:
  assumes "distinct xs"
  shows "dict_of (map (\<lambda>(i, oid). (oid, int i + 1)) (enumerate 0 xs)) x = Some k
         \<longleftrightarrow> (\<exists>i < length xs. xs ! i = x \<and> k = int i + 1)"
proof -
  let ?kvs = "map (\<lambda>(i, oid). (oid, int i + 1)) (enumerate 0 xs)"
  have "distinct (map fst (rev ?kvs))"
    using assms by (simp add: rev_map [symmetric] fst_numbered del: map_map)
  then have "map_of (rev ?kvs) x = Some k \<longleftrightarrow> (x, k) \<in> set ?kvs"
    by (simp add: map_of_eq_Some_iff del: map_map)
  also have "\<dots> \<longleftrightarrow> (\<exists>i < length xs. xs ! i = x \<and> k = int i + 1)"
    by (auto simp: in_set_enumerate_eq image_iff Bex_def)
  finally show ?thesis by (simp add: dict_of_map_of)
qed

lemma id_map_iff:
  "id_map data x = Some k \<longleftrightarrow>
     (\<exists>i < length (object_ids data). object_ids data ! i = x \<and> k = int i + 1)"
  unfolding id_map_def by (rule dict_of_enumerate_iff [OF distinct_object_ids])

lemma length_object_ids: "length (object_ids data) = card (all_object_ids data)"
  using distinct_card [OF distinct_object_ids, of data] by (simp add: set_object_ids)

lemma dom_id_map: "dom (id_map data) = all_object_ids data"
  by (auto simp: dom_def id_map_iff in_set_conv_nth simp flip: set_object_ids)

lemma object_in_dom:
  "fr \<in> set data \<Longrightarrow> fig \<in> set (figures fr) \<Longrightarrow> objectId fig \<in> dom (id_map data)"
  by (auto simp: dom_id_map all_object_ids_def)

lemma example_object_ids: "object_ids example_document = [3, 7]"
  by (simp add: object_ids_def example_document_def)

lemma example_id_map: "id_map example_document = [3 \<mapsto> 1, 7 \<mapsto> 2]"
  by (simp add: id_map_def example_object_ids dict_of_def)

text \<open>
  C1: the identity map of a document is defined exactly on the object identifiers that
  occur anywhere in the document, it is a bijection from them onto the dense range
  \<open>1 .. N\<close>, where \<open>N\<close> is the number of distinct identifiers, and it is monotonic: a
  smaller original identifier gets a smaller dense identifier. The map is a function of
  the whole document and is built before \<open>emit_frames\<close> runs.
\<close>

theorem id_map_bijection:
  "dom (id_map data) = all_object_ids data \<and>
   bij_betw (\<lambda>oid. the (id_map data oid)) (all_object_ids data)
     {1 .. int (card (all_object_ids data))} \<and>
   (\<forall>a \<in> all_object_ids data. \<forall>b \<in> all_object_ids data.
      a < b \<longrightarrow> the (id_map data a) < the (id_map data b))"
proof (intro conjI ballI impI)
  let ?ids = "object_ids data"
  have nth: "the (id_map data (?ids ! i)) = int i + 1" if "i < length ?ids" for i
  proof -
    have "id_map data (?ids ! i) = Some (int i + 1)"
      using that by (auto simp: id_map_iff)
    then show ?thesis by simp
  qed
  show "dom (id_map data) = all_object_ids data" by (rule dom_id_map)
  show "bij_betw (\<lambda>oid. the (id_map data oid)) (all_object_ids data)
     {1 .. int (card (all_object_ids data))}"
    unfolding bij_betw_def
  proof
    show "inj_on (\<lambda>oid. the (id_map data oid)) (all_object_ids data)"
      by (auto simp: inj_on_def in_set_conv_nth nth simp flip: set_object_ids)
    show "(\<lambda>oid. the (id_map data oid)) ` all_object_ids data = {1 .. int (card (all_object_ids data))}"
    proof (intro equalityI subsetI)
      fix k assume "k \<in> (\<lambda>oid. the (id_map data oid)) ` all_object_ids data"
      then show "k \<in> {1 .. int (card (all_object_ids data))}"
        by (auto simp: in_set_conv_nth nth length_object_ids simp flip: set_object_ids)
    next
      fix k assume k: "k \<in> {1 .. int (card (all_object_ids data))}"
      then have i: "nat (k - 1) < length ?ids" by (auto simp: length_object_ids)
      have "the (id_map data (?ids ! nat (k - 1))) = k"
        using k by (simp add: nth [OF i])
      moreover have "?ids ! nat (k - 1) \<in> all_object_ids data"
        using i by (simp flip: set_object_ids)
      ultimately show "k \<in> (\<lambda>oid. the (id_map data oid)) ` all_object_ids data"
        by (metis imageI)
    qed
  qed
  fix a b assume a: "a \<in> all_object_ids data" and b: "b \<in> all_object_ids data" and ab: "a < b"
  from a obtain i where i: "i < length ?ids" "?ids ! i = a"
    by (auto simp: in_set_conv_nth simp flip: set_object_ids)
  from b obtain j where j: "j < length ?ids" "?ids ! j = b"
    by (auto simp: in_set_conv_nth simp flip: set_object_ids)
  have "i < j"
  proof (rule ccontr)
    assume "\<not> i < j"
    then have "j \<le> i" by simp
    then have "?ids ! j \<le> ?ids ! i"
      using sorted_object_ids i(1) by (simp add: sorted_nth_mono)
    with ab i j show False by simp
  qed
  then show "the (id_map data a) < the (id_map data b)"
    using nth [OF i(1)] nth [OF j(1)] i(2) j(2) by simp
qed

theorem id_map_bijection_witness:
  "3 \<in> all_object_ids example_document \<and> 7 \<in> all_object_ids example_document \<and>
   dom (id_map example_document) = {3, 7} \<and>
   bij_betw (\<lambda>oid. the (id_map example_document oid)) {3, 7} {1 .. 2} \<and>
   the (id_map example_document 3) < the (id_map example_document 7)"
proof -
  have ids: "all_object_ids example_document = {3, 7}"
    by (auto simp: all_object_ids_def example_document_def)
  have "card {3, 7 :: int} = 2" by simp
  with id_map_bijection [of example_document] show ?thesis
    by (simp add: ids)
qed

subsection \<open>Box geometry of a row\<close>

lemma half_even_of_int: "half_even (of_int n) = n"
  by (simp add: half_even_def)

lemma half_even_cases:
  "half_even q = \<lfloor>q\<rfloor> \<or> half_even q = \<lfloor>q\<rfloor> + 1"
  by (simp add: half_even_def Let_def)

lemma half_even_nonneg: "0 \<le> q \<Longrightarrow> 0 \<le> half_even q"
  using half_even_cases [of q] by (auto simp: zero_le_floor)

lemma rounds_to_half_even: "rounds_to q n \<longleftrightarrow> n = half_even q"
proof -
  define f where "f = \<lfloor>q\<rfloor>"
  define d where "d = q - of_int f"
  have d: "0 \<le> d" "d < 1" and q: "q = of_int f + d"
    by (simp_all add: d_def f_def) linarith+
  have he: "half_even q =
      (if d < 1 / 2 then f else if 1 / 2 < d then f + 1 else if even f then f else f + 1)"
    by (simp add: half_even_def Let_def f_def d_def)
  have nf: "rounds_to q f \<longleftrightarrow> d \<le> 1 / 2 \<and> (d = 1 / 2 \<longrightarrow> even f)"
    using d by (simp add: rounds_to_def q)
  have nf1: "rounds_to q (f + 1) \<longleftrightarrow> 1 / 2 \<le> d \<and> (d = 1 / 2 \<longrightarrow> odd f)"
    using d by (auto simp: rounds_to_def q abs_if)
  show ?thesis
  proof
    assume r: "rounds_to q n"
    then have "of_int n - q \<le> 1 / 2" "q - of_int n \<le> 1 / 2"
      unfolding rounds_to_def by linarith+
    with d q have "of_int n < (of_int (f + 2) :: rat)" "(of_int (f - 1) :: rat) < of_int n"
      by simp_all
    then have "n < f + 2" "f - 1 < n" by (simp_all only: of_int_less_iff)
    then consider "n = f" | "n = f + 1" by linarith
    then show "n = half_even q"
    proof cases
      case 1
      with r nf show ?thesis by (auto simp: he)
    next
      case 2
      with r nf1 show ?thesis by (auto simp: he)
    qed
  next
    assume "n = half_even q"
    then show "rounds_to q n"
      using nf nf1 by (auto simp: he split: if_splits)
  qed
qed

lemma fl_abs_round_minus: "fl_abs (round_to_double (- q)) = fl_abs (round_to_double q)"
  by (cases "q = 0"; cases "0 < q") (auto simp: round_to_double_def Let_def)

lemma fl_abs_sub_commute: "fl_abs (fl_sub a b) = fl_abs (fl_sub b a)"
  using fl_abs_round_minus [of "val (PyFloat a) - val (PyFloat b)"]
  by (cases a; cases b) simp_all

lemma as_double_finite: "as_double a = Inr f \<Longrightarrow> is_finite (PyFloat f) = is_finite a"
proof (cases a)
  case (PyInt n)
  assume "as_double a = Inr f"
  with PyInt show ?thesis by (cases "round_to_double (of_int n)") auto
qed simp

lemma py_sub_commute:
  "py_sub a b = Inr d \<Longrightarrow> \<exists>d'. py_sub b a = Inr d' \<and> py_abs d' = py_abs d"
  by (cases a; cases b) (auto simp: fl_abs_sub_commute split: sum.splits)

lemma fl_sub_finite: "is_finite (PyFloat (fl_sub a b)) \<Longrightarrow> is_finite (PyFloat a) \<and> is_finite (PyFloat b)"
  by (cases a; cases b) simp_all

lemma py_sub_finite:
  "py_sub a b = Inr d \<Longrightarrow> is_finite d \<Longrightarrow> is_finite a \<and> is_finite b"
  by (cases a; cases b) (auto split: sum.splits float64.splits dest: fl_sub_finite)

lemma exact_finite: "is_finite a \<Longrightarrow> exact a = Fin (val a)"
  by (cases a rule: is_finite.cases) simp_all

lemma py_min_finite:
  "is_finite a \<Longrightarrow> is_finite b \<Longrightarrow>
     is_finite (py_min a b) \<and> val (py_min a b) = min (val a) (val b)"
  by (auto simp: py_min_def py_lt_def exact_finite)

lemma py_round_iff: "py_round a = Inr r \<longleftrightarrow> is_finite a \<and> r = half_even (val a)"
  by (cases a rule: py_round.cases) (auto simp: half_even_of_int)

lemma py_abs_finite: "is_finite (py_abs d) = is_finite d"
  by (cases d rule: is_finite.cases) simp_all

lemma val_py_abs: "is_finite d \<Longrightarrow> val (py_abs d) = \<bar>val d\<bar>"
  by (cases d rule: is_finite.cases) simp_all

lemma unpack_exterior_iff:
  "unpack_exterior e = Inr ((x1, y1), (x2, y2)) \<longleftrightarrow> e = [[x1, y1], [x2, y2]]"
  by (cases e rule: unpack_exterior.cases) auto

lemma mot_row_iff:
  "mot_row idm fi fig = Inr r \<longleftrightarrow>
     (\<exists>x1 y1 x2 y2 dx dy i.
        exterior fig = [[x1, y1], [x2, y2]] \<and>
        py_sub x2 x1 = Inr dx \<and> py_sub y2 y1 = Inr dy \<and>
        idm (objectId fig) = Some i \<and>
        is_finite x1 \<and> is_finite y1 \<and> is_finite x2 \<and> is_finite y2 \<and>
        is_finite dx \<and> is_finite dy \<and>
        r = \<lparr>fidx = fi, ident = i,
             bb_x = half_even (min (val x1) (val x2)),
             bb_y = half_even (min (val y1) (val y2)),
             bb_w = half_even \<bar>val dx\<bar>, bb_h = half_even \<bar>val dy\<bar>,
             conf = 1, cls = 1, vis = 1\<rparr>)"
  (is "?l \<longleftrightarrow> ?r")
proof
  assume ?l
  then obtain x1 y1 x2 y2 where u: "unpack_exterior (exterior fig) = Inr ((x1, y1), (x2, y2))"
    by (auto simp: mot_row_def split: sum.splits)
  with \<open>?l\<close> obtain dx dy i rx ry rw rh where
    s: "py_sub x2 x1 = Inr dx" "py_sub y2 y1 = Inr dy" "idm (objectId fig) = Some i"
    and p: "py_round (py_min x1 x2) = Inr rx" "py_round (py_min y1 y2) = Inr ry"
      "py_round (py_abs dx) = Inr rw" "py_round (py_abs dy) = Inr rh"
    and r: "r = \<lparr>fidx = fi, ident = i, bb_x = rx, bb_y = ry, bb_w = rw, bb_h = rh,
             conf = 1, cls = 1, vis = 1\<rparr>"
    by (auto simp: mot_row_def Let_def split: sum.splits option.splits)
  from p(3,4) have fd: "is_finite dx" "is_finite dy"
    and w: "rw = half_even \<bar>val dx\<bar>" "rh = half_even \<bar>val dy\<bar>"
    by (simp_all add: py_round_iff py_abs_finite val_py_abs)
  from s(1) fd(1) have fx: "is_finite x1" "is_finite x2"
    using py_sub_finite by blast+
  from s(2) fd(2) have fy: "is_finite y1" "is_finite y2"
    using py_sub_finite by blast+
  from p(1,2) fx fy have "rx = half_even (min (val x1) (val x2))"
    "ry = half_even (min (val y1) (val y2))"
    by (simp_all add: py_round_iff py_min_finite)
  with u s fd fx fy w r show ?r
    by (simp add: unpack_exterior_iff)
next
  assume ?r
  then obtain x1 y1 x2 y2 dx dy i where
    u: "unpack_exterior (exterior fig) = Inr ((x1, y1), (x2, y2))"
    and s: "py_sub x2 x1 = Inr dx" "py_sub y2 y1 = Inr dy" "idm (objectId fig) = Some i"
    and f: "is_finite x1" "is_finite y1" "is_finite x2" "is_finite y2" "is_finite dx" "is_finite dy"
    and r: "r = \<lparr>fidx = fi, ident = i,
             bb_x = half_even (min (val x1) (val x2)),
             bb_y = half_even (min (val y1) (val y2)),
             bb_w = half_even \<bar>val dx\<bar>, bb_h = half_even \<bar>val dy\<bar>,
             conf = 1, cls = 1, vis = 1\<rparr>"
    by (auto simp: unpack_exterior_iff)
  have "py_round (py_min x1 x2) = Inr (half_even (min (val x1) (val x2)))"
    "py_round (py_min y1 y2) = Inr (half_even (min (val y1) (val y2)))"
    "py_round (py_abs dx) = Inr (half_even \<bar>val dx\<bar>)"
    "py_round (py_abs dy) = Inr (half_even \<bar>val dy\<bar>)"
    using f by (simp_all add: py_round_iff py_min_finite py_abs_finite val_py_abs)
  with u s r show ?l by (simp add: mot_row_def)
qed

lemma mot_row_fields:
  assumes "mot_row idm fi fig = Inr r"
  shows "fidx r = fi \<and> idm (objectId fig) = Some (ident r) \<and> conf r = 1 \<and> cls r = 1 \<and> vis r = 1"
  using assms unfolding mot_row_iff by auto

lemma mot_row_valid_box:
  "(\<exists>r. mot_row idm fi fig = Inr r) \<longleftrightarrow> valid_box fig \<and> objectId fig \<in> dom idm"
proof -
  have "valid_box fig \<longleftrightarrow>
     (\<exists>x1 y1 x2 y2 dx dy. exterior fig = [[x1, y1], [x2, y2]] \<and>
        py_sub x2 x1 = Inr dx \<and> py_sub y2 y1 = Inr dy \<and>
        is_finite x1 \<and> is_finite y1 \<and> is_finite x2 \<and> is_finite y2 \<and>
        is_finite dx \<and> is_finite dy)"
    by (auto simp: valid_box_def finite_diff_def unpack_exterior_iff [symmetric]
        split: sum.splits)
  then show ?thesis
    unfolding mot_row_iff by (auto simp: dom_def)
qed

lemma py_sub_commute_val:
  assumes "py_sub a b = Inr d" "is_finite d"
  shows "\<exists>d'. py_sub b a = Inr d' \<and> is_finite d' \<and> \<bar>val d'\<bar> = \<bar>val d\<bar>"
proof -
  from py_sub_commute [OF assms(1)] obtain d' where d': "py_sub b a = Inr d'" "py_abs d' = py_abs d"
    by blast
  from d'(2) assms(2) have "is_finite d'"
    by (metis py_abs_finite)
  with d'(2) assms(2) have "\<bar>val d'\<bar> = \<bar>val d\<bar>"
    by (metis val_py_abs)
  with d'(1) \<open>is_finite d'\<close> show ?thesis by blast
qed

lemma mot_row_swapped:
  assumes "mot_row idm fi fig = Inr r"
  shows "mot_row idm fi (swapped fig) = Inr r"
proof -
  from assms obtain x1 y1 x2 y2 dx dy i where
    e: "exterior fig = [[x1, y1], [x2, y2]]"
    and s: "py_sub x2 x1 = Inr dx" "py_sub y2 y1 = Inr dy" "idm (objectId fig) = Some i"
    and f: "is_finite x1" "is_finite y1" "is_finite x2" "is_finite y2" "is_finite dx" "is_finite dy"
    and r: "r = \<lparr>fidx = fi, ident = i,
             bb_x = half_even (min (val x1) (val x2)),
             bb_y = half_even (min (val y1) (val y2)),
             bb_w = half_even \<bar>val dx\<bar>, bb_h = half_even \<bar>val dy\<bar>,
             conf = 1, cls = 1, vis = 1\<rparr>"
    unfolding mot_row_iff by blast
  from py_sub_commute_val [OF s(1) f(5)] obtain dx' where
    dx': "py_sub x1 x2 = Inr dx'" "is_finite dx'" "\<bar>val dx'\<bar> = \<bar>val dx\<bar>" by blast
  from py_sub_commute_val [OF s(2) f(6)] obtain dy' where
    dy': "py_sub y1 y2 = Inr dy'" "is_finite dy'" "\<bar>val dy'\<bar> = \<bar>val dy\<bar>" by blast
  have "exterior (swapped fig) = [[x2, y2], [x1, y1]]" "objectId (swapped fig) = objectId fig"
    by (simp_all add: swapped_def e)
  with dx' dy' s(3) f r show ?thesis
    unfolding mot_row_iff by (simp add: min.commute)
qed

lemma emit_figures_rows:
  "emit_figures idm fi figs = Inr rows \<Longrightarrow>
     list_all2 (\<lambda>fig r. mot_row idm fi fig = Inr r) figs rows"
  by (induction figs arbitrary: rows) (auto split: sum.splits)

lemma rows_emit_figures:
  "list_all2 (\<lambda>fig r. mot_row idm fi fig = Inr r) figs rows \<Longrightarrow>
     emit_figures idm fi figs = Inr rows"
  by (induction figs rows rule: list_all2_induct) simp_all

lemma emit_figures_iff:
  "emit_figures idm fi figs = Inr rows \<longleftrightarrow>
     list_all2 (\<lambda>fig r. mot_row idm fi fig = Inr r) figs rows"
  using emit_figures_rows rows_emit_figures by blast

lemma figures_in_order_Cons:
  "figures_in_order (fr # frs) = map (Pair fr) (figures fr) @ figures_in_order frs"
  by (simp add: figures_in_order_def)

lemma emit_frames_rows:
  "emit_frames idm frs = Inr rows \<Longrightarrow>
     list_all2 (\<lambda>(fr, fig) r. mot_row idm (index fr + 1) fig = Inr r)
       (figures_in_order frs) rows"
proof (induction frs arbitrary: rows)
  case Nil
  then show ?case by (simp add: figures_in_order_def)
next
  case (Cons fr frs)
  from Cons.prems obtain rs rss where
    rs: "emit_figures idm (index fr + 1) (figures fr) = Inr rs"
    and rss: "emit_frames idm frs = Inr rss" and rows: "rows = rs @ rss"
    by (auto split: sum.splits)
  from rs have "list_all2 (\<lambda>(fr, fig) r. mot_row idm (index fr + 1) fig = Inr r)
      (map (Pair fr) (figures fr)) rs"
    by (simp add: list_all2_map1 emit_figures_iff)
  with Cons.IH [OF rss] show ?case
    unfolding figures_in_order_Cons rows by (rule list_all2_appendI [rotated])
qed

lemma rows_emit_frames:
  "list_all2 (\<lambda>(fr, fig) r. mot_row idm (index fr + 1) fig = Inr r)
       (figures_in_order frs) rows \<Longrightarrow>
   emit_frames idm frs = Inr rows"
proof (induction frs arbitrary: rows)
  case Nil
  then show ?case by (simp add: figures_in_order_def)
next
  case (Cons fr frs)
  from Cons.prems obtain rs rss where rows: "rows = rs @ rss"
    and rs: "list_all2 (\<lambda>(fr, fig) r. mot_row idm (index fr + 1) fig = Inr r)
      (map (Pair fr) (figures fr)) rs"
    and rss: "list_all2 (\<lambda>(fr, fig) r. mot_row idm (index fr + 1) fig = Inr r)
      (figures_in_order frs) rss"
    unfolding figures_in_order_Cons list_all2_append1 by blast
  from rs have "emit_figures idm (index fr + 1) (figures fr) = Inr rs"
    by (simp add: list_all2_map1 emit_figures_iff)
  with Cons.IH [OF rss] rows show ?case by simp
qed

lemma emit_frames_iff:
  "emit_frames idm frs = Inr rows \<longleftrightarrow>
     list_all2 (\<lambda>(fr, fig) r. mot_row idm (index fr + 1) fig = Inr r)
       (figures_in_order frs) rows"
  using emit_frames_rows rows_emit_frames by blast

lemma sup_to_mot_iff:
  "sup_to_mot data = Inr rows \<longleftrightarrow>
     list_all2 (\<lambda>(fr, fig) r. mot_row (id_map data) (index fr + 1) fig = Inr r)
       (figures_in_order data) rows"
  by (simp add: sup_to_mot_def emit_frames_iff)

lemma in_figures_in_order:
  "(fr, fig) \<in> set (figures_in_order data) \<longleftrightarrow> fr \<in> set data \<and> fig \<in> set (figures fr)"
  by (auto simp: figures_in_order_def)

lemma emit_figures_swapped:
  assumes "list_all2 (\<lambda>fig fig'. fig' = fig \<or> fig' = swapped fig) figs figs'"
    and "emit_figures idm fi figs = Inr rows"
  shows "emit_figures idm fi figs' = Inr rows"
  using assms
proof (induction figs figs' arbitrary: rows rule: list_all2_induct)
  case Nil
  then show ?case by simp
next
  case (Cons fig figs fig' figs')
  from Cons.prems obtain r rs where r: "mot_row idm fi fig = Inr r"
    and rs: "emit_figures idm fi figs = Inr rs" and rows: "rows = r # rs"
    by (auto split: sum.splits)
  from Cons.hyps(1) r have "mot_row idm fi fig' = Inr r"
    by (auto dest: mot_row_swapped)
  with Cons.IH [OF rs] rows show ?case by simp
qed

lemma emit_frames_swapped:
  assumes "same_boxes data data'" and "emit_frames idm data = Inr rows"
  shows "emit_frames idm data' = Inr rows"
  using assms unfolding same_boxes_def
proof (induction data data' arbitrary: rows rule: list_all2_induct)
  case Nil
  then show ?case by simp
next
  case (Cons fr frs fr' frs')
  from Cons.prems obtain rs rss where
    rs: "emit_figures idm (index fr + 1) (figures fr) = Inr rs"
    and rss: "emit_frames idm frs = Inr rss" and rows: "rows = rs @ rss"
    by (auto split: sum.splits)
  from Cons.hyps(1) rs have "emit_figures idm (index fr' + 1) (figures fr') = Inr rs"
    by (auto dest: emit_figures_swapped)
  with Cons.IH [OF rss] rows show ?case by simp
qed

lemma objectId_swapped: "objectId (swapped fig) = objectId fig"
  by (simp add: swapped_def)

lemma same_boxes_object_ids:
  assumes "same_boxes data data'"
  shows "object_ids data' = object_ids data"
proof -
  have figs: "map objectId figs' = map objectId figs"
    if "list_all2 (\<lambda>fig fig'. fig' = fig \<or> fig' = swapped fig) figs figs'" for figs figs'
    using that by (induction figs figs' rule: list_all2_induct) (auto simp: objectId_swapped)
  from assms have "map (\<lambda>fr. map objectId (figures fr)) data'
      = map (\<lambda>fr. map objectId (figures fr)) data"
    unfolding same_boxes_def
    by (induction data data' rule: list_all2_induct) (auto dest: figs)
  then show ?thesis by (simp add: object_ids_def)
qed

lemma sup_to_mot_swapped:
  assumes "same_boxes data data'" and "sup_to_mot data = Inr rows"
  shows "sup_to_mot data' = Inr rows"
proof -
  from assms(1) have "id_map data' = id_map data"
    by (simp add: id_map_def same_boxes_object_ids)
  with emit_frames_swapped [OF assms(1)] assms(2) show ?thesis
    by (simp add: sup_to_mot_def)
qed

lemma is_int_val: "is_int a \<Longrightarrow> \<exists>n. a = PyInt n"
  by (cases a) simp_all

lemma example_sup_to_mot:
  "sup_to_mot example_document =
     Inr [\<lparr>fidx = 1, ident = 2, bb_x = 10, bb_y = 20, bb_w = 40, bb_h = 60,
           conf = 1, cls = 1, vis = 1\<rparr>,
          \<lparr>fidx = 3, ident = 1, bb_x = 1, bb_y = 2, bb_w = 3, bb_h = 4,
           conf = 1, cls = 1, vis = 1\<rparr>]"
  by (simp add: sup_to_mot_def example_id_map)
    (simp add: example_document_def mot_row_def py_min_def py_lt_def)

text \<open>
  C2: in a table that the converter returns, the row of a figure with the corner points
  \<open>(x1, y1)\<close> and \<open>(x2, y2)\<close> has as its top-left corner the minimum of the two x and
  of the two y coordinates, and as width and height the absolute values of Python's
  differences \<open>x2 - x1\<close> and \<open>y2 - y1\<close>, each rounded to the nearest integer: the
  coordinates and the differences are finite numbers. Width and height are not
  negative. On \<open>int\<close> coordinates nothing is rounded: the fields are exactly the minimum
  and the absolute difference. The table does not depend on the order in which the
  figures list their corner points.
\<close>

theorem sup_to_mot_box:
  assumes "sup_to_mot data = Inr rows"
    and "i < length rows" and "figures_in_order data ! i = (fr, fig)"
  shows "\<exists>x1 y1 x2 y2 dx dy.
      exterior fig = [[x1, y1], [x2, y2]] \<and>
      py_sub x2 x1 = Inr dx \<and> py_sub y2 y1 = Inr dy \<and>
      is_finite x1 \<and> is_finite y1 \<and> is_finite x2 \<and> is_finite y2 \<and>
      is_finite dx \<and> is_finite dy \<and>
      rounds_to (min (val x1) (val x2)) (bb_x (rows ! i)) \<and>
      rounds_to (min (val y1) (val y2)) (bb_y (rows ! i)) \<and>
      rounds_to \<bar>val dx\<bar> (bb_w (rows ! i)) \<and>
      rounds_to \<bar>val dy\<bar> (bb_h (rows ! i)) \<and>
      0 \<le> bb_w (rows ! i) \<and> 0 \<le> bb_h (rows ! i) \<and>
      (is_int x1 \<and> is_int x2 \<longrightarrow>
         of_int (bb_x (rows ! i)) = min (val x1) (val x2) \<and>
         of_int (bb_w (rows ! i)) = \<bar>val x2 - val x1\<bar>) \<and>
      (is_int y1 \<and> is_int y2 \<longrightarrow>
         of_int (bb_y (rows ! i)) = min (val y1) (val y2) \<and>
         of_int (bb_h (rows ! i)) = \<bar>val y2 - val y1\<bar>) \<and>
      (\<forall>data'. same_boxes data data' \<longrightarrow> sup_to_mot data' = Inr rows)"
proof -
  from assms(1) have "list_all2 (\<lambda>(fr, fig) r. mot_row (id_map data) (index fr + 1) fig = Inr r)
       (figures_in_order data) rows"
    by (simp add: sup_to_mot_iff)
  from list_all2_nthD2 [OF this assms(2)] assms(3)
  have "mot_row (id_map data) (index fr + 1) fig = Inr (rows ! i)" by simp
  then obtain x1 y1 x2 y2 dx dy k where
    e: "exterior fig = [[x1, y1], [x2, y2]]"
    and s: "py_sub x2 x1 = Inr dx" "py_sub y2 y1 = Inr dy"
    and f: "is_finite x1" "is_finite y1" "is_finite x2" "is_finite y2" "is_finite dx" "is_finite dy"
    and r: "rows ! i = \<lparr>fidx = index fr + 1, ident = k,
             bb_x = half_even (min (val x1) (val x2)),
             bb_y = half_even (min (val y1) (val y2)),
             bb_w = half_even \<bar>val dx\<bar>, bb_h = half_even \<bar>val dy\<bar>,
             conf = 1, cls = 1, vis = 1\<rparr>"
    unfolding mot_row_iff by blast
  have ix: "of_int (bb_x (rows ! i)) = min (val x1) (val x2) \<and>
         of_int (bb_w (rows ! i)) = \<bar>val x2 - val x1\<bar>" if "is_int x1 \<and> is_int x2"
  proof -
    from that obtain n1 n2 where "x1 = PyInt n1" "x2 = PyInt n2"
      using is_int_val by blast
    with s(1) have v: "\<bar>val dx\<bar> = of_int \<bar>n2 - n1\<bar>"
      "min (val x1) (val x2) = of_int (min n1 n2)"
      "\<bar>val x2 - val x1\<bar> = of_int \<bar>n2 - n1\<bar>"
      by auto
    have "half_even \<bar>val dx\<bar> = \<bar>n2 - n1\<bar>"
      "half_even (min (val x1) (val x2)) = min n1 n2"
      unfolding v by (rule half_even_of_int)+
    with v show ?thesis
      by (simp add: r)
  qed
  have iy: "of_int (bb_y (rows ! i)) = min (val y1) (val y2) \<and>
         of_int (bb_h (rows ! i)) = \<bar>val y2 - val y1\<bar>" if "is_int y1 \<and> is_int y2"
  proof -
    from that obtain n1 n2 where "y1 = PyInt n1" "y2 = PyInt n2"
      using is_int_val by blast
    with s(2) have v: "\<bar>val dy\<bar> = of_int \<bar>n2 - n1\<bar>"
      "min (val y1) (val y2) = of_int (min n1 n2)"
      "\<bar>val y2 - val y1\<bar> = of_int \<bar>n2 - n1\<bar>"
      by auto
    have "half_even \<bar>val dy\<bar> = \<bar>n2 - n1\<bar>"
      "half_even (min (val y1) (val y2)) = min n1 n2"
      unfolding v by (rule half_even_of_int)+
    with v show ?thesis
      by (simp add: r)
  qed
  have sw: "\<forall>data'. same_boxes data data' \<longrightarrow> sup_to_mot data' = Inr rows"
    using assms(1) by (auto intro: sup_to_mot_swapped)
  have "rounds_to (min (val x1) (val x2)) (bb_x (rows ! i))"
    "rounds_to (min (val y1) (val y2)) (bb_y (rows ! i))"
    "rounds_to \<bar>val dx\<bar> (bb_w (rows ! i))"
    "rounds_to \<bar>val dy\<bar> (bb_h (rows ! i))"
    "0 \<le> bb_w (rows ! i)" "0 \<le> bb_h (rows ! i)"
    by (simp_all add: r rounds_to_half_even half_even_nonneg)
  with e s f ix iy sw show ?thesis by blast
qed

text \<open>
  The corners \<open>(50, 80)\<close>, \<open>(10, 20)\<close> of the first figure of the scenario give
  \<open>x = 10\<close>, \<open>y = 20\<close>, \<open>w = 40\<close>, \<open>h = 60\<close>, and so do the corners \<open>(10, 20)\<close>,
  \<open>(50, 80)\<close>.
\<close>

theorem sup_to_mot_box_witness:
  "\<exists>rows. sup_to_mot example_document = Inr rows \<and> 0 < length rows \<and>
     bb_x (rows ! 0) = 10 \<and> bb_y (rows ! 0) = 20 \<and>
     bb_w (rows ! 0) = 40 \<and> bb_h (rows ! 0) = 60 \<and>
     sup_to_mot example_reversed = Inr rows"
proof -
  let ?fig = "\<lparr>objectId = 7, exterior = [[PyInt 50, PyInt 80], [PyInt 10, PyInt 20]]\<rparr>"
  let ?fr = "\<lparr>index = 0, figures = [?fig]\<rparr>"
  let ?rows = "[\<lparr>fidx = 1, ident = 2, bb_x = 10, bb_y = 20, bb_w = 40, bb_h = 60,
           conf = 1, cls = 1, vis = 1\<rparr>,
          \<lparr>fidx = 3, ident = 1, bb_x = 1, bb_y = 2, bb_w = 3, bb_h = 4,
           conf = 1, cls = 1, vis = 1\<rparr>]"
  have rows: "sup_to_mot example_document = Inr ?rows" by (rule example_sup_to_mot)
  have len: "0 < length ?rows" by simp
  have fig: "figures_in_order example_document ! 0 = (?fr, ?fig)"
    by (simp add: figures_in_order_def example_document_def)
  from sup_to_mot_box [OF rows len fig] obtain x1 y1 x2 y2 where
    e: "exterior ?fig = [[x1, y1], [x2, y2]]"
    and x: "is_int x1 \<and> is_int x2 \<longrightarrow>
         of_int (bb_x (?rows ! 0)) = min (val x1) (val x2) \<and>
         of_int (bb_w (?rows ! 0)) = \<bar>val x2 - val x1\<bar>"
    and y: "is_int y1 \<and> is_int y2 \<longrightarrow>
         of_int (bb_y (?rows ! 0)) = min (val y1) (val y2) \<and>
         of_int (bb_h (?rows ! 0)) = \<bar>val y2 - val y1\<bar>"
    and sw: "\<forall>data'. same_boxes example_document data' \<longrightarrow> sup_to_mot data' = Inr ?rows"
    by blast
  from e have c: "x1 = PyInt 50" "y1 = PyInt 80" "x2 = PyInt 10" "y2 = PyInt 20"
    by simp_all
  from x y have "(of_int (bb_x (?rows ! 0)) :: rat) = 10" "(of_int (bb_w (?rows ! 0)) :: rat) = 40"
    "(of_int (bb_y (?rows ! 0)) :: rat) = 20" "(of_int (bb_h (?rows ! 0)) :: rat) = 60"
    unfolding c by simp_all
  then have b: "bb_x (?rows ! 0) = 10" "bb_w (?rows ! 0) = 40"
    "bb_y (?rows ! 0) = 20" "bb_h (?rows ! 0) = 60"
    by simp_all
  have "same_boxes example_document example_reversed"
    by (simp add: same_boxes_def example_document_def example_reversed_def swapped_def)
  with sw have "sup_to_mot example_reversed = Inr ?rows" by blast
  with rows len b show ?thesis by (intro exI [of _ ?rows] conjI)
qed

subsection \<open>Rows of the ground-truth table\<close>

lemma int_box_valid: "int_box fig \<Longrightarrow> valid_box fig"
proof -
  assume ib: "int_box fig"
  then obtain p q where e: "exterior fig = [p, q]"
    by (auto simp: int_box_def well_formed_def length_Suc_conv numeral_2_eq_2)
  with ib have "length p = 2" "length q = 2" by (simp_all add: int_box_def well_formed_def)
  then obtain x1 y1 x2 y2 where pq: "p = [x1, y1]" "q = [x2, y2]"
    by (auto simp: length_Suc_conv numeral_2_eq_2)
  with ib e obtain a b c d where "x1 = PyInt a" "y1 = PyInt b" "x2 = PyInt c" "y2 = PyInt d"
    by (auto simp: int_box_def dest!: is_int_val)
  with e pq show ?thesis by (simp add: valid_box_def finite_diff_def)
qed

lemma list_all2_ex: "(\<exists>ys. list_all2 P xs ys) \<longleftrightarrow> (\<forall>x \<in> set xs. \<exists>y. P x y)"
proof (induction xs)
  case Nil
  then show ?case by simp
next
  case (Cons x xs)
  then show ?case by (auto simp: list_all2_Cons1)
qed

lemma sup_to_mot_returns:
  "(\<exists>rows. sup_to_mot data = Inr rows) \<longleftrightarrow>
     (\<forall>fr \<in> set data. \<forall>fig \<in> set (figures fr). valid_box fig)"
proof -
  have "(\<exists>rows. sup_to_mot data = Inr rows) \<longleftrightarrow>
      (\<forall>p \<in> set (figures_in_order data).
         \<exists>r. mot_row (id_map data) (index (fst p) + 1) (snd p) = Inr r)"
    by (simp add: sup_to_mot_iff list_all2_ex case_prod_beta)
  also have "\<dots> \<longleftrightarrow> (\<forall>fr \<in> set data. \<forall>fig \<in> set (figures fr).
         \<exists>r. mot_row (id_map data) (index fr + 1) fig = Inr r)"
    (is "?A \<longleftrightarrow> ?B")
  proof
    assume a: ?A
    show ?B
    proof (intro ballI)
      fix fr fig assume "fr \<in> set data" "fig \<in> set (figures fr)"
      then have "(fr, fig) \<in> set (figures_in_order data)"
        by (simp add: in_figures_in_order)
      with a show "\<exists>r. mot_row (id_map data) (index fr + 1) fig = Inr r"
        by fastforce
    qed
  next
    assume ?B
    then show ?A by (auto simp: in_figures_in_order)
  qed
  also have "\<dots> \<longleftrightarrow> (\<forall>fr \<in> set data. \<forall>fig \<in> set (figures fr). valid_box fig)"
    by (simp add: mot_row_valid_box object_in_dom)
  finally show ?thesis .
qed

lemma py_sub_error: "py_sub a b = Inl e \<Longrightarrow> e = OverflowError"
  by (cases a; cases b) (auto split: sum.splits float64.splits)

lemma py_round_error: "py_round a = Inl e \<Longrightarrow> e = OverflowError \<or> e = ValueError"
  by (cases a rule: py_round.cases) auto

lemma unpack_exterior_error: "unpack_exterior e = Inl err \<Longrightarrow> err = ValueError"
  by (cases e rule: unpack_exterior.cases) auto

lemma mot_row_error:
  assumes "mot_row idm fi fig = Inl e" "objectId fig \<in> dom idm"
  shows "e = ValueError \<or> e = OverflowError"
  using assms
  by (auto simp: mot_row_def Let_def split: sum.splits option.splits
      dest: py_sub_error py_round_error unpack_exterior_error)

lemma emit_figures_error:
  "emit_figures idm fi figs = Inl e \<Longrightarrow> \<exists>fig \<in> set figs. mot_row idm fi fig = Inl e"
  by (induction figs) (auto split: sum.splits)

lemma emit_frames_error:
  "emit_frames idm frs = Inl e \<Longrightarrow>
     \<exists>fr \<in> set frs. \<exists>fig \<in> set (figures fr). mot_row idm (index fr + 1) fig = Inl e"
  by (induction frs) (auto split: sum.splits dest: emit_figures_error)

lemma sup_to_mot_error:
  assumes "sup_to_mot data = Inl e"
  shows "e = ValueError \<or> e = OverflowError"
proof -
  from assms obtain fr fig where "fr \<in> set data" "fig \<in> set (figures fr)"
    "mot_row (id_map data) (index fr + 1) fig = Inl e"
    unfolding sup_to_mot_def by (blast dest: emit_frames_error)
  then show ?thesis
    using mot_row_error object_in_dom by blast
qed

text \<open>
  C3: the converter returns a table exactly when every figure of the document is a box
  that it can write, as every two-corner figure with \<open>int\<close> coordinates is; otherwise it
  raises \<open>ValueError\<close> or \<open>OverflowError\<close>. The table has exactly one row per figure,
  in document order of the frame records and in figure order within a record; the row
  of a figure is the one that the loop body makes of it, its frame field is the 0-based
  index of its record plus 1, its identifier is the identity map's value for the
  figure's object, and its three trailing fields are 1, 1, 1.
\<close>

theorem sup_to_mot_rows:
  "((\<exists>rows. sup_to_mot data = Inr rows) \<longleftrightarrow>
      (\<forall>fr \<in> set data. \<forall>fig \<in> set (figures fr). valid_box fig)) \<and>
   ((\<forall>fr \<in> set data. \<forall>fig \<in> set (figures fr). int_box fig) \<longrightarrow>
      (\<exists>rows. sup_to_mot data = Inr rows)) \<and>
   (\<forall>e. sup_to_mot data = Inl e \<longrightarrow> e = ValueError \<or> e = OverflowError) \<and>
   (\<forall>rows. sup_to_mot data = Inr rows \<longrightarrow>
      list_all2 (\<lambda>(fr, fig) r.
          mot_row (id_map data) (index fr + 1) fig = Inr r \<and>
          fidx r = index fr + 1 \<and> id_map data (objectId fig) = Some (ident r) \<and>
          conf r = 1 \<and> cls r = 1 \<and> vis r = 1)
        (figures_in_order data) rows)"
proof (intro conjI allI impI)
  show "(\<exists>rows. sup_to_mot data = Inr rows) \<longleftrightarrow>
      (\<forall>fr \<in> set data. \<forall>fig \<in> set (figures fr). valid_box fig)"
    by (rule sup_to_mot_returns)
next
  assume "\<forall>fr \<in> set data. \<forall>fig \<in> set (figures fr). int_box fig"
  then have "\<forall>fr \<in> set data. \<forall>fig \<in> set (figures fr). valid_box fig"
    by (blast intro: int_box_valid)
  then show "\<exists>rows. sup_to_mot data = Inr rows"
    by (simp add: sup_to_mot_returns)
next
  fix e assume "sup_to_mot data = Inl e"
  then show "e = ValueError \<or> e = OverflowError" by (rule sup_to_mot_error)
next
  fix rows assume "sup_to_mot data = Inr rows"
  then have "list_all2 (\<lambda>(fr, fig) r. mot_row (id_map data) (index fr + 1) fig = Inr r)
       (figures_in_order data) rows"
    by (simp add: sup_to_mot_iff)
  then show "list_all2 (\<lambda>(fr, fig) r.
          mot_row (id_map data) (index fr + 1) fig = Inr r \<and>
          fidx r = index fr + 1 \<and> id_map data (objectId fig) = Some (ident r) \<and>
          conf r = 1 \<and> cls r = 1 \<and> vis r = 1)
        (figures_in_order data) rows"
    by (rule list_all2_mono) (auto dest: mot_row_fields)
qed

text \<open>
  The scenario of the specification: identity map \<open>{3: 1, 7: 2}\<close>, then a row for
  frame 1 with identifier 2 and a row for frame 3 with identifier 1, in that order.
\<close>

theorem sup_to_mot_rows_witness:
  "id_map example_document 3 = Some 1 \<and> id_map example_document 7 = Some 2 \<and>
   dom (id_map example_document) = {3, 7} \<and>
   (\<exists>rows. sup_to_mot example_document = Inr rows \<and>
     map fidx rows = [1, 3] \<and> map ident rows = [2, 1] \<and>
     map conf rows = [1, 1] \<and> map cls rows = [1, 1] \<and> map vis rows = [1, 1])"
proof -
  have ids: "id_map example_document 3 = Some 1" "id_map example_document 7 = Some 2"
    "dom (id_map example_document) = {3, 7}"
    by (auto simp: example_id_map)
  have "\<forall>fr \<in> set example_document. \<forall>fig \<in> set (figures fr). int_box fig"
    by (simp add: example_document_def int_box_def well_formed_def)
  with sup_to_mot_rows [of example_document] obtain rows where
    rows: "sup_to_mot example_document = Inr rows"
    by blast
  with sup_to_mot_rows [of example_document] have
    "list_all2 (\<lambda>(fr, fig) r.
          mot_row (id_map example_document) (index fr + 1) fig = Inr r \<and>
          fidx r = index fr + 1 \<and> id_map example_document (objectId fig) = Some (ident r) \<and>
          conf r = 1 \<and> cls r = 1 \<and> vis r = 1)
        (figures_in_order example_document) rows"
    by blast
  moreover have "figures_in_order example_document =
     [(\<lparr>index = 0, figures = [\<lparr>objectId = 7,
          exterior = [[PyInt 50, PyInt 80], [PyInt 10, PyInt 20]]\<rparr>]\<rparr>,
       \<lparr>objectId = 7, exterior = [[PyInt 50, PyInt 80], [PyInt 10, PyInt 20]]\<rparr>),
      (\<lparr>index = 2, figures = [\<lparr>objectId = 3,
          exterior = [[PyInt 1, PyInt 2], [PyInt 4, PyInt 6]]\<rparr>]\<rparr>,
       \<lparr>objectId = 3, exterior = [[PyInt 1, PyInt 2], [PyInt 4, PyInt 6]]\<rparr>)]"
    by (simp add: figures_in_order_def example_document_def)
  ultimately have "map fidx rows = [1, 3] \<and> map ident rows = [2, 1] \<and>
     map conf rows = [1, 1] \<and> map cls rows = [1, 1] \<and> map vis rows = [1, 1]"
    by (auto simp: list_all2_Cons1 example_id_map)
  with rows have "\<exists>rows. sup_to_mot example_document = Inr rows \<and>
     map fidx rows = [1, 3] \<and> map ident rows = [2, 1] \<and>
     map conf rows = [1, 1] \<and> map cls rows = [1, 1] \<and> map vis rows = [1, 1]"
    by (intro exI [of _ rows]) simp
  with ids show ?thesis by (intro conjI)
qed

subsection \<open>Pre-flight validation\<close>

lemma check_sequence_append:
  "check_sequence tree seq issues = issues @ check_sequence tree seq []"
  by (simp add: check_sequence_def Let_def split: option.splits)

lemma check_sequences_concat:
  "check_sequences tree seqs issues = issues @ concat (map (\<lambda>seq. check_sequence tree seq []) seqs)"
proof (induction seqs arbitrary: issues)
  case Nil
  then show ?case by simp
next
  case (Cons seq seqs)
  show ?case
    by (simp add: Cons.IH) (subst check_sequence_append, simp)
qed

lemma checked_sequences:
  "split_of ''train'' @ split_of ''val'' @ split_of ''test'' = all_sequences"
  by (simp add: split_of_def SPLIT_def all_sequences_def)

lemma sanity_check_concat:
  "sanity_check tree = concat (map (\<lambda>seq. check_sequence tree seq []) all_sequences)"
  by (simp add: sanity_check_def checked_sequences check_sequences_concat)

lemma check_sequence_Nil_iff:
  "check_sequence tree seq [] = [] \<longleftrightarrow> valid_sequence tree seq"
  by (auto simp: check_sequence_def valid_sequence_def Let_def split: option.splits)

lemma sanity_check_Nil_iff:
  "sanity_check tree = [] \<longleftrightarrow> (\<forall>seq \<in> set all_sequences. valid_sequence tree seq)"
  by (simp add: sanity_check_concat check_sequence_Nil_iff)

lemma sanity_check_mem:
  "seq \<in> set all_sequences \<Longrightarrow> issue \<in> set (check_sequence tree seq []) \<Longrightarrow>
     issue \<in> set (sanity_check tree)"
  by (auto simp: sanity_check_concat)

lemma C1D1_in_all: "''C1D-1'' \<in> set all_sequences"
  by (simp add: all_sequences_def SPLIT_def)

lemma C1D3_in_all: "''C1D-3'' \<in> set all_sequences"
  by (simp add: all_sequences_def SPLIT_def)

lemma C2N4_in_all: "''C2N-4'' \<in> set all_sequences"
  by (simp add: all_sequences_def SPLIT_def)

lemma sanity_check_broken:
  "sanity_check broken_dataset =
     [''C1D-1: no .ts clips found in raw_videos/'', ''C1D-1: missing annotation.json'',
      ''C1D-3: missing raw_videos/'',
      ''C1N-1: directory not found'', ''C1N-3: directory not found'',
      ''C2D-2: directory not found'', ''C2N-2: directory not found'',
      ''C2ND-1: directory not found'', ''C1ND-1: directory not found'',
      ''C2N-3: directory not found'', ''C2D-1: directory not found'',
      ''C1DN-1: directory not found'', ''C1D-2: directory not found'',
      ''C1N-2: directory not found'', ''C2N-1: directory not found'',
      ''C2N-4: directory not found'', ''C2DN-1: directory not found'']"
  by (simp add: sanity_check_def split_of_def SPLIT_def check_sequence_def broken_dataset_def)

text \<open>
  C5: pre-flight validation goes through every sequence of every split and collects a
  problem for each violation without stopping at the first: a missing sequence directory
  (one entry for the sequence, after which the loop goes on to the next sequence), and,
  for a directory that exists, a missing raw-video folder or one without any clip, and a
  missing annotation document. The list is empty exactly when every sequence is valid.
  The entry point prints the whole list and exits with the request to fix the issues
  exactly when the list is not empty; what it has done by then are the printed lines only,
  no sequence has been processed.
\<close>

theorem preflight_validation:
  "(\<forall>seq \<in> set all_sequences.
      (resolve tree [seq] = None \<longrightarrow>
         seq @ '': directory not found'' \<in> set (sanity_check tree)) \<and>
      (resolve tree [seq] \<noteq> None \<and> resolve tree [seq, ''raw_videos''] = None \<longrightarrow>
         seq @ '': missing raw_videos/'' \<in> set (sanity_check tree)) \<and>
      (resolve tree [seq] \<noteq> None \<and>
       (\<exists>raw_dir. resolve tree [seq, ''raw_videos''] = Some raw_dir \<and> rglob is_ts raw_dir = []) \<longrightarrow>
         seq @ '': no .ts clips found in raw_videos/'' \<in> set (sanity_check tree)) \<and>
      (resolve tree [seq] \<noteq> None \<and> resolve tree [seq, ''annotation.json''] = None \<longrightarrow>
         seq @ '': missing annotation.json'' \<in> set (sanity_check tree))) \<and>
   ((\<exists>seq \<in> set all_sequences. \<not> valid_sequence tree seq) \<longleftrightarrow> sanity_check tree \<noteq> []) \<and>
   ((\<exists>acts. main ok mkdtemp finish True True ROOT tree = Inr (acts, PleaseFixIssues))
      \<longleftrightarrow> sanity_check tree \<noteq> []) \<and>
   (sanity_check tree \<noteq> [] \<longrightarrow>
      main ok mkdtemp finish True True ROOT tree =
        Inr (Print MissingHeader # map (\<lambda>p. Print (Problem p)) (sanity_check tree),
             PleaseFixIssues))"
proof (intro conjI ballI impI)
  fix seq assume seq: "seq \<in> set all_sequences"
  { assume "resolve tree [seq] = None"
    then have "seq @ '': directory not found'' \<in> set (check_sequence tree seq [])"
      by (simp add: check_sequence_def)
    then show "seq @ '': directory not found'' \<in> set (sanity_check tree)"
      by (rule sanity_check_mem [OF seq]) }
  { assume "resolve tree [seq] \<noteq> None \<and> resolve tree [seq, ''raw_videos''] = None"
    then have "seq @ '': missing raw_videos/'' \<in> set (check_sequence tree seq [])"
      by (auto simp: check_sequence_def Let_def split: option.splits)
    then show "seq @ '': missing raw_videos/'' \<in> set (sanity_check tree)"
      by (rule sanity_check_mem [OF seq]) }
  { assume "resolve tree [seq] \<noteq> None \<and>
       (\<exists>raw_dir. resolve tree [seq, ''raw_videos''] = Some raw_dir \<and> rglob is_ts raw_dir = [])"
    then have "seq @ '': no .ts clips found in raw_videos/'' \<in> set (check_sequence tree seq [])"
      by (auto simp: check_sequence_def Let_def split: option.splits)
    then show "seq @ '': no .ts clips found in raw_videos/'' \<in> set (sanity_check tree)"
      by (rule sanity_check_mem [OF seq]) }
  { assume "resolve tree [seq] \<noteq> None \<and> resolve tree [seq, ''annotation.json''] = None"
    then have "seq @ '': missing annotation.json'' \<in> set (check_sequence tree seq [])"
      by (auto simp: check_sequence_def Let_def split: option.splits)
    then show "seq @ '': missing annotation.json'' \<in> set (sanity_check tree)"
      by (rule sanity_check_mem [OF seq]) }
next
  show "(\<exists>seq \<in> set all_sequences. \<not> valid_sequence tree seq) \<longleftrightarrow> sanity_check tree \<noteq> []"
    by (simp add: sanity_check_Nil_iff)
next
  show "(\<exists>acts. main ok mkdtemp finish True True ROOT tree = Inr (acts, PleaseFixIssues))
      \<longleftrightarrow> sanity_check tree \<noteq> []"
    by (auto simp: main_def Let_def split: sum.splits)
next
  assume "sanity_check tree \<noteq> []"
  then show "main ok mkdtemp finish True True ROOT tree =
        Inr (Print MissingHeader # map (\<lambda>p. Print (Problem p)) (sanity_check tree),
             PleaseFixIssues)"
    by (simp add: main_def)
qed

theorem preflight_validation_witness:
  "''C1D-1'' \<in> set all_sequences \<and> ''C1D-3'' \<in> set all_sequences \<and> ''C2N-4'' \<in> set all_sequences \<and>
   resolve broken_dataset [''C2N-4''] = None \<and>
   ''C2N-4: directory not found'' \<in> set (sanity_check broken_dataset) \<and>
   resolve broken_dataset [''C1D-3''] \<noteq> None \<and>
   resolve broken_dataset [''C1D-3'', ''raw_videos''] = None \<and>
   ''C1D-3: missing raw_videos/'' \<in> set (sanity_check broken_dataset) \<and>
   resolve broken_dataset [''C1D-1''] \<noteq> None \<and>
   resolve broken_dataset [''C1D-1'', ''raw_videos''] = Some (Dir []) \<and> rglob is_ts (Dir []) = [] \<and>
   ''C1D-1: no .ts clips found in raw_videos/'' \<in> set (sanity_check broken_dataset) \<and>
   resolve broken_dataset [''C1D-1'', ''annotation.json''] = None \<and>
   ''C1D-1: missing annotation.json'' \<in> set (sanity_check broken_dataset) \<and>
   \<not> valid_sequence broken_dataset ''C1D-1'' \<and>
   sanity_check broken_dataset \<noteq> [] \<and>
   main (\<lambda>acts cmd. True) (\<lambda>acts. [''tmp'']) (\<lambda>seq sp acts. Inr acts) True True [''OinkTrack'']
       broken_dataset =
     Inr (Print MissingHeader # map (\<lambda>p. Print (Problem p)) (sanity_check broken_dataset),
          PleaseFixIssues)"
proof -
  note inst = preflight_validation [of broken_dataset "\<lambda>acts cmd. True" "\<lambda>acts. [''tmp'']"
      "\<lambda>seq sp acts. Inr acts" "[''OinkTrack'']"]
  have facts:
    "resolve broken_dataset [''C2N-4''] = None"
    "resolve broken_dataset [''C1D-3''] \<noteq> None"
    "resolve broken_dataset [''C1D-3'', ''raw_videos''] = None"
    "resolve broken_dataset [''C1D-1''] \<noteq> None"
    "resolve broken_dataset [''C1D-1'', ''raw_videos''] = Some (Dir [])"
    "rglob is_ts (Dir []) = []"
    "resolve broken_dataset [''C1D-1'', ''annotation.json''] = None"
    by (simp_all add: broken_dataset_def)
  from inst have each: "\<forall>seq \<in> set all_sequences.
      (resolve broken_dataset [seq] = None \<longrightarrow>
         seq @ '': directory not found'' \<in> set (sanity_check broken_dataset)) \<and>
      (resolve broken_dataset [seq] \<noteq> None \<and> resolve broken_dataset [seq, ''raw_videos''] = None \<longrightarrow>
         seq @ '': missing raw_videos/'' \<in> set (sanity_check broken_dataset)) \<and>
      (resolve broken_dataset [seq] \<noteq> None \<and>
       (\<exists>raw_dir. resolve broken_dataset [seq, ''raw_videos''] = Some raw_dir \<and> rglob is_ts raw_dir = []) \<longrightarrow>
         seq @ '': no .ts clips found in raw_videos/'' \<in> set (sanity_check broken_dataset)) \<and>
      (resolve broken_dataset [seq] \<noteq> None \<and> resolve broken_dataset [seq, ''annotation.json''] = None \<longrightarrow>
         seq @ '': missing annotation.json'' \<in> set (sanity_check broken_dataset))"
    by (rule conjunct1)
  have a: "''C2N-4'' @ '': directory not found'' \<in> set (sanity_check broken_dataset)"
    using bspec [OF each C2N4_in_all] facts by blast
  have b: "''C1D-3'' @ '': missing raw_videos/'' \<in> set (sanity_check broken_dataset)"
    using bspec [OF each C1D3_in_all] facts by blast
  have c: "''C1D-1'' @ '': no .ts clips found in raw_videos/'' \<in> set (sanity_check broken_dataset)"
    using bspec [OF each C1D1_in_all] facts by blast
  have d: "''C1D-1'' @ '': missing annotation.json'' \<in> set (sanity_check broken_dataset)"
    using bspec [OF each C1D1_in_all] facts by blast
  from d have ne: "sanity_check broken_dataset \<noteq> []" by auto
  have nv: "\<not> valid_sequence broken_dataset ''C1D-1''"
    using facts by (simp add: valid_sequence_def)
  from inst ne have m: "main (\<lambda>acts cmd. True) (\<lambda>acts. [''tmp'']) (\<lambda>seq sp acts. Inr acts) True True
       [''OinkTrack''] broken_dataset =
     Inr (Print MissingHeader # map (\<lambda>p. Print (Problem p)) (sanity_check broken_dataset),
          PleaseFixIssues)"
    by blast
  from a b c d have "''C2N-4: directory not found'' \<in> set (sanity_check broken_dataset)"
    "''C1D-3: missing raw_videos/'' \<in> set (sanity_check broken_dataset)"
    "''C1D-1: no .ts clips found in raw_videos/'' \<in> set (sanity_check broken_dataset)"
    "''C1D-1: missing annotation.json'' \<in> set (sanity_check broken_dataset)"
    by simp_all
  with facts ne nv m C1D1_in_all C1D3_in_all C2N4_in_all show ?thesis
    by (intro conjI)
qed

subsection \<open>Video assembly does not depend on the enumeration order\<close>

lemma glob_names: "glob pat seg nd = map (\<lambda>n. seg @ [n]) (filter pat (map fst (entries nd)))"
  by (simp add: glob_def filter_map comp_def case_prod_unfold)

lemma shuffled_names:
  assumes "shuffled a b"
  shows "mset (map fst (entries b)) = mset (map fst (entries a))"
  using assms
proof cases
  case shuffled_File
  then show ?thesis by simp
next
  case (shuffled_Dir es es' es'')
  from shuffled_Dir(3) have "map fst es = map fst es'"
    by (induction rule: list_all2_induct) auto
  moreover from shuffled_Dir(4) have "mset (map fst es'') = mset (map fst es')"
    by (metis mset_map)
  ultimately show ?thesis using shuffled_Dir(1,2) by simp
qed

lemma shuffled_is_dir: "shuffled a b \<Longrightarrow> is_dir b = is_dir a"
  by (cases rule: shuffled.cases) auto

lemma sort_glob_shuffled:
  assumes "shuffled a b"
  shows "sort (glob pat seg b) = sort (glob pat seg a)"
proof -
  have "mset (glob pat seg b) = mset (glob pat seg a)"
    unfolding glob_names using shuffled_names [OF assms]
    by (metis mset_filter mset_map)
  then show ?thesis
    by (metis properties_for_sort sorted_sort mset_sort)
qed

lemma assemble_segments_shuffled:
  assumes "list_all2 (\<lambda>(p, c) (p', c'). p = p' \<and> shuffled c c') segs segs'"
  shows "assemble_segments ok tmp_dir segs' acc log0 = assemble_segments ok tmp_dir segs acc log0"
  using assms
proof (induction segs segs' arbitrary: acc log0 rule: list_all2_induct)
  case Nil
  then show ?case by simp
next
  case (Cons x xs y ys)
  obtain p c where x: "x = (p, c)" by (cases x)
  with Cons.hyps(1) obtain c' where y: "y = (p, c')" and sh: "shuffled c c'"
    by (cases y) auto
  show ?case
    by (simp add: x y sort_glob_shuffled [OF sh] Cons.IH Let_def split: sum.splits prod.splits)
qed

lemma filter_key_distinct:
  "distinct (map f zs) \<Longrightarrow> k \<in> set zs \<Longrightarrow> filter (\<lambda>x. f k = f x) zs = [k]"
proof (induction zs)
  case Nil
  then show ?case by simp
next
  case (Cons z zs)
  show ?case
  proof (cases "k = z")
    case True
    with Cons.prems(1) have "filter (\<lambda>x. f k = f x) zs = []"
      by (auto simp: filter_empty_conv)
    with True show ?thesis by simp
  next
    case False
    with Cons.prems have k: "k \<in> set zs" by simp
    with Cons.prems(1) have "f k \<noteq> f z" by (auto simp: image_iff)
    with k Cons show ?thesis by simp
  qed
qed

lemma sort_key_mset_distinct:
  assumes "mset ys = mset xs" "distinct (map f xs)"
  shows "sort_key f ys = sort_key f xs"
proof -
  let ?zs = "sort_key f xs"
  have m: "mset ?zs = mset ys" using assms(1) by simp
  have "mset (map f ys) = mset (map f xs)" using assms(1) by (metis mset_map)
  with assms(2) have dy: "distinct (map f ys)"
    by (metis mset_eq_imp_distinct_iff)
  have "mset (map f ?zs) = mset (map f xs)" by (metis mset_map mset_sort)
  with assms(2) have dz: "distinct (map f ?zs)"
    by (metis mset_eq_imp_distinct_iff)
  have "filter (\<lambda>x. f k = f x) ?zs = filter (\<lambda>x. f k = f x) ys" if "k \<in> set ?zs" for k
  proof -
    from that m have "k \<in> set ys" by (metis mset_eq_setD)
    with dy dz that show ?thesis by (simp add: filter_key_distinct)
  qed
  with m show ?thesis
    by (intro properties_for_sort_key) simp_all
qed

lemma insort_key_rel:
  assumes "list_all2 (\<lambda>(p, c) (p', c'). p = p' \<and> R c c') xs ys" "R c c'"
  shows "list_all2 (\<lambda>(p, c) (p', c'). p = p' \<and> R c c')
           (insort_key fst (p, c) xs) (insort_key fst (p, c') ys)"
  using assms(1)
proof (induction rule: list_all2_induct)
  case Nil
  then show ?case using assms(2) by simp
next
  case (Cons x xs y ys)
  then show ?case using assms(2) by (cases x; cases y) auto
qed

lemma sort_key_rel:
  assumes "list_all2 (\<lambda>(p, c) (p', c'). p = p' \<and> R c c') xs ys"
  shows "list_all2 (\<lambda>(p, c) (p', c'). p = p' \<and> R c c') (sort_key fst xs) (sort_key fst ys)"
  using assms
proof (induction rule: list_all2_induct)
  case Nil
  then show ?case by simp
next
  case (Cons x xs y ys)
  then show ?case by (cases x; cases y) (auto intro: insort_key_rel)
qed

lemma subdirs_rel:
  assumes "list_all2 (\<lambda>e e'. fst e = fst e' \<and> shuffled (snd e) (snd e')) es es'"
  shows "list_all2 (\<lambda>(p, c) (p', c'). p = p' \<and> shuffled c c') (subdirs raw_dir es) (subdirs raw_dir es')"
  using assms
  by (induction rule: list_all2_induct) (auto simp: subdirs_def shuffled_is_dir)

lemma distinct_subdirs: "distinct (map fst es) \<Longrightarrow> distinct (map fst (subdirs raw_dir es))"
proof -
  assume d: "distinct (map fst es)"
  have eq: "map fst (subdirs raw_dir es) =
      map (\<lambda>n. raw_dir @ [n]) (map fst (filter (\<lambda>(n, c). is_dir c) es))"
    by (simp add: subdirs_def comp_def case_prod_unfold)
  have "distinct (map fst (filter (\<lambda>(n, c). is_dir c) es))"
    using d by (rule distinct_map_filter)
  then show ?thesis
    unfolding eq by (subst distinct_map) (simp add: inj_on_def)
qed

lemma shuffled_listing: "shuffled listing_a listing_b"
proof -
  have f: "shuffled File File" by (rule shuffled_File)
  have s1: "shuffled (Dir [(''x.ts'', File)]) (Dir [(''x.ts'', File)])"
    by (rule shuffled_Dir [where es' = "[(''x.ts'', File)]"]) (simp_all add: f)
  have s2: "shuffled (Dir [(''b.ts'', File), (''a.ts'', File)]) (Dir [(''a.ts'', File), (''b.ts'', File)])"
    by (rule shuffled_Dir [where es' = "[(''b.ts'', File), (''a.ts'', File)]"]) (simp_all add: f)
  show ?thesis
    unfolding listing_a_def listing_b_def
    by (rule shuffled_Dir [where es' = "[(''seg2'', Dir [(''a.ts'', File), (''b.ts'', File)]),
          (''notes.txt'', File), (''seg1'', Dir [(''x.ts'', File)])]"]) (simp_all add: f s1 s2)
qed

text \<open>
  C9: for two listings of the same raw-video directory that differ only in the order in
  which directory entries are enumerated (no directory lists a name twice), video
  assembly runs the same commands in the same order, writes the same concat lists and
  returns the same result: segments and clips are sorted by name before use.
\<close>

theorem build_1fps_video_shuffled:
  assumes "shuffled a b" and "distinct (map fst (entries a))"
  shows "build_1fps_video ok raw_dir (Some b) tmp_dir log0 =
         build_1fps_video ok raw_dir (Some a) tmp_dir log0"
  using assms(1)
proof cases
  case shuffled_File
  then show ?thesis by simp
next
  case (shuffled_Dir es es' es'')
  let ?R = "\<lambda>(p :: path, c) (p' :: path, c'). p = p' \<and> shuffled c c'"
  from shuffled_Dir(3) have names: "map fst es' = map fst es"
    by (induction rule: list_all2_induct) auto
  with assms(2) shuffled_Dir(1) have "distinct (map fst es')" by simp
  then have d': "distinct (map fst (subdirs raw_dir es'))" by (rule distinct_subdirs)
  have "mset (subdirs raw_dir es'') = mset (subdirs raw_dir es')"
    using shuffled_Dir(4) by (simp add: subdirs_def)
  then have perm: "sort_key fst (subdirs raw_dir es'') = sort_key fst (subdirs raw_dir es')"
    and emp: "subdirs raw_dir es'' = [] \<longleftrightarrow> subdirs raw_dir es' = []"
    using d' by (auto intro: sort_key_mset_distinct dest: mset_eq_setD)
  have rel: "list_all2 ?R (subdirs raw_dir es) (subdirs raw_dir es')"
    using shuffled_Dir(3) by (rule subdirs_rel)
  then have emp': "subdirs raw_dir es = [] \<longleftrightarrow> subdirs raw_dir es' = []"
    by (auto dest: list_all2_lengthD)
  have segs: "segment_dirs raw_dir (Some (Dir xs)) =
      Inr (if subdirs raw_dir xs = [] then [(raw_dir, Dir xs)] else subdirs raw_dir xs)" for xs
    by (simp add: subdirs_def Let_def)
  have "assemble_segments ok tmp_dir
          (sort_key fst (if subdirs raw_dir es'' = [] then [(raw_dir, Dir es'')] else subdirs raw_dir es''))
          [] log0 =
        assemble_segments ok tmp_dir
          (sort_key fst (if subdirs raw_dir es = [] then [(raw_dir, Dir es)] else subdirs raw_dir es))
          [] log0"
  proof (cases "subdirs raw_dir es' = []")
    case True
    with emp emp' have e: "subdirs raw_dir es = []" "subdirs raw_dir es'' = []"
      by simp_all
    have "list_all2 ?R [(raw_dir, Dir es)] [(raw_dir, Dir es'')]"
      using assms(1) shuffled_Dir(1,2) by simp
    then have "assemble_segments ok tmp_dir [(raw_dir, Dir es'')] [] log0 =
        assemble_segments ok tmp_dir [(raw_dir, Dir es)] [] log0"
      by (rule assemble_segments_shuffled)
    then show ?thesis
      by (simp add: e del: assemble_segments.simps)
  next
    case False
    with emp emp' have e: "subdirs raw_dir es \<noteq> []" "subdirs raw_dir es'' \<noteq> []"
      by simp_all
    have "list_all2 ?R (sort_key fst (subdirs raw_dir es)) (sort_key fst (subdirs raw_dir es'))"
      using rel by (rule sort_key_rel)
    then have "assemble_segments ok tmp_dir (sort_key fst (subdirs raw_dir es')) [] log0 =
        assemble_segments ok tmp_dir (sort_key fst (subdirs raw_dir es)) [] log0"
      by (rule assemble_segments_shuffled)
    then show ?thesis
      by (simp add: e perm del: assemble_segments.simps)
  qed
  then show ?thesis
    unfolding shuffled_Dir(1,2) build_1fps_video_def segs sum.case
    by (rule arg_cong)
qed

theorem build_1fps_video_shuffled_witness:
  "shuffled listing_a listing_b \<and> distinct (map fst (entries listing_a)) \<and> listing_a \<noteq> listing_b \<and>
   build_1fps_video (\<lambda>acts cmd. True) [''raw_videos''] (Some listing_b) [''tmp''] [] =
   build_1fps_video (\<lambda>acts cmd. True) [''raw_videos''] (Some listing_a) [''tmp''] []"
proof -
  have d: "distinct (map fst (entries listing_a))"
    by (simp add: listing_a_def)
  have "listing_a \<noteq> listing_b"
    by (simp add: listing_a_def listing_b_def)
  with build_1fps_video_shuffled [OF shuffled_listing d] shuffled_listing d show ?thesis
    by simp
qed

subsection \<open>Search depth of validation and of assembly\<close>

lemma is_ts_clip: "is_ts ''clip.ts''" and not_is_ts_sub: "\<not> is_ts ''sub''"
  by (simp_all add: is_ts_def suffix_to_prefix)

lemma rglob_nest: "rglob is_ts (nest k) \<noteq> []"
  by (induction k) (simp_all add: is_ts_clip)

lemma child_in_entries: "child nd n = Some c \<Longrightarrow> (n, c) \<in> set (entries nd)"
  by (cases nd) (auto dest: map_of_SomeD)

lemma rglob_resolve:
  "resolve raw p = Some c \<Longrightarrow> p \<noteq> [] \<Longrightarrow> pat (last p) \<Longrightarrow> p \<in> set (rglob pat raw)"
proof (induction p arbitrary: raw)
  case Nil
  then show ?case by simp
next
  case (Cons n p)
  from Cons.prems(1) obtain d where d: "child raw n = Some d" "resolve d p = Some c"
    by (auto split: option.splits)
  then obtain es where raw: "raw = Dir es" and mem: "(n, d) \<in> set es"
    by (cases raw) (auto dest: map_of_SomeD)
  show ?case
  proof (cases "p = []")
    case True
    with Cons.prems(3) mem show ?thesis by (force simp: raw)
  next
    case False
    with Cons.prems(3) have "pat (last p)" by simp
    from Cons.IH [OF d(2) False this] mem show ?thesis by (force simp: raw)
  qed
qed

lemma glob_nest_Suc: "glob is_ts seg (nest (Suc k)) = []"
  by (simp add: glob_def not_is_ts_sub)

lemma build_nest:
  "build_1fps_video ok raw_dir (Some (nest (Suc (Suc k)))) tmp_dir log0 = Inr (None, log0)"
proof -
  have "segment_dirs raw_dir (Some (nest (Suc (Suc k)))) = Inr [(raw_dir @ [''sub''], nest (Suc k))]"
    by simp
  then show ?thesis
    by (simp add: build_1fps_video_def glob_nest_Suc del: nest.simps)
qed

lemma glob_prune: "glob pat seg (prune (Suc k) nd) = glob pat seg nd"
  by (cases nd) (simp_all add: glob_def filter_map comp_def case_prod_unfold)

lemma is_dir_prune: "is_dir (prune k nd) = is_dir nd"
  by (cases nd; cases k) simp_all

lemma assemble_segments_prune:
  "assemble_segments ok tmp_dir (map (\<lambda>(seg, c). (seg, prune (Suc k) c)) segs) acc log0 =
   assemble_segments ok tmp_dir segs acc log0"
  by (induction ok tmp_dir segs acc log0 rule: assemble_segments.induct)
    (simp_all add: glob_prune Let_def split: sum.splits prod.splits)

lemma sort_key_map_snd:
  "sort_key fst (map (\<lambda>(a, b). (a, f b)) xs) = map (\<lambda>(a, b). (a, f b)) (sort_key fst xs)"
proof -
  have ins: "insort_key fst (a, f b) (map (\<lambda>(a, b). (a, f b)) ys) =
      map (\<lambda>(a, b). (a, f b)) (insort_key fst (a, b) ys)" for a b ys
    by (induction ys) auto
  show ?thesis
    by (induction xs) (auto simp: ins)
qed

lemma build_prune:
  "build_1fps_video ok raw_dir (Some (prune 2 nd)) tmp_dir log0 =
   build_1fps_video ok raw_dir (Some nd) tmp_dir log0"
proof (cases nd)
  case File
  then show ?thesis by simp
next
  case (Dir es)
  let ?ds = "map (\<lambda>(n, c). (raw_dir @ [n], c)) (filter (\<lambda>(n, c). is_dir c) es)"
  let ?P = "\<lambda>(seg :: path, c). (seg, prune 1 c)"
  have p2: "prune 2 (Dir es) = Dir (map (\<lambda>(n, c). (n, prune 1 c)) es)"
    by (simp add: numeral_2_eq_2)
  have ds: "map (\<lambda>(n, c). (raw_dir @ [n], c))
       (filter (\<lambda>(n, c). is_dir c) (map (\<lambda>(n, c). (n, prune 1 c)) es)) = map ?P ?ds"
    by (simp add: filter_map comp_def case_prod_unfold is_dir_prune)
  have segs: "segment_dirs raw_dir (Some (prune 2 (Dir es))) =
      Inr (if ?ds = [] then map (\<lambda>(seg, c). (seg, prune (Suc 1) c)) [(raw_dir, Dir es)] else map ?P ?ds)"
    unfolding p2 segment_dirs.simps ds Let_def by simp
  have segs': "segment_dirs raw_dir (Some (Dir es)) =
      Inr (if ?ds = [] then [(raw_dir, Dir es)] else ?ds)"
    by (simp add: Let_def)
  have same: "assemble_segments ok tmp_dir (sort_key fst (map (\<lambda>(seg, c). (seg, prune (Suc k) c)) xs)) [] log0 =
      assemble_segments ok tmp_dir (sort_key fst xs) [] log0" for xs k
    using assemble_segments_prune [of ok tmp_dir k "sort_key fst xs" "[]" log0]
    by (simp only: sort_key_map_snd)
  show ?thesis
  proof (cases "?ds = []")
    case True
    have "segment_dirs raw_dir (Some (prune 2 (Dir es))) =
        Inr (map (\<lambda>(seg, c). (seg, prune (Suc 1) c)) [(raw_dir, Dir es)])"
      using True by (simp add: segs del: prune.simps segment_dirs.simps)
    moreover have "segment_dirs raw_dir (Some (Dir es)) = Inr [(raw_dir, Dir es)]"
      using True by (simp add: segs' del: prune.simps segment_dirs.simps)
    ultimately show ?thesis
      by (simp only: Dir build_1fps_video_def sum.case same)
  next
    case False
    have "segment_dirs raw_dir (Some (prune 2 (Dir es))) =
        Inr (map (\<lambda>(seg, c). (seg, prune (Suc 0) c)) ?ds)"
      using False by (simp add: segs del: prune.simps segment_dirs.simps)
    moreover have "segment_dirs raw_dir (Some (Dir es)) = Inr ?ds"
      using False by (simp add: segs' del: prune.simps segment_dirs.simps)
    ultimately show ?thesis
      by (simp only: Dir build_1fps_video_def sum.case same)
  qed
qed

lemma child_dataset_with:
  assumes "seq \<in> set all_sequences"
  shows "child (dataset_with raw) seq = Some (Dir [(''raw_videos'', raw), (''annotation.json'', File)])"
proof -
  have "map_of (map (\<lambda>seq. (seq, v)) xs) seq = Some v" if "seq \<in> set xs" for xs and v :: node
    using that by (induction xs) auto
  with assms show ?thesis by (simp add: dataset_with_def)
qed

lemma valid_dataset_with:
  assumes "seq \<in> set all_sequences" "rglob is_ts raw \<noteq> []"
  shows "valid_sequence (dataset_with raw) seq"
  using assms(2) by (simp add: valid_sequence_def child_dataset_with [OF assms(1)])

lemma sanity_check_dataset_with:
  "rglob is_ts raw \<noteq> [] \<Longrightarrow> sanity_check (dataset_with raw) = []"
  by (simp add: sanity_check_Nil_iff valid_dataset_with)

lemma process_sequence_nest:
  assumes "seq \<in> set all_sequences"
  shows "process_sequence ok mkdtemp finish ROOT (dataset_with (nest (Suc (Suc k)))) seq sp log0 =
     Inr (log0 @ [Mkdir (OUT_DIR @ [sp, seq, ''gt'']), Print (NoVideoProduced seq),
                  Cleanup (mkdtemp (log0 @ [Mkdir (OUT_DIR @ [sp, seq, ''gt''])]))])"
proof -
  have "resolve (dataset_with (nest (Suc (Suc k)))) [seq, ''raw_videos''] = Some (nest (Suc (Suc k)))"
    by (simp add: child_dataset_with [OF assms] del: nest.simps)
  then show ?thesis
    by (simp add: process_sequence_def Let_def build_nest del: nest.simps)
qed

text \<open>
  C10: the clip check of pre-flight validation accepts a clip at any depth below the
  raw-video directory, while video assembly reads only the first two levels (the result
  is the same when everything below them is cut off). So with the only clip two or more
  directories down, validation reports nothing for any sequence, assembly returns
  \<open>None\<close> without running a command, and the sequence is skipped with a message.
\<close>

theorem validation_deeper_than_assembly:
  "(\<forall>raw p c. resolve raw p = Some c \<and> p \<noteq> [] \<and> is_ts (last p) \<longrightarrow> rglob is_ts raw \<noteq> []) \<and>
   (\<forall>nd. build_1fps_video ok raw_dir (Some (prune 2 nd)) tmp_dir log0 =
         build_1fps_video ok raw_dir (Some nd) tmp_dir log0) \<and>
   resolve (nest (k + 2)) (replicate (k + 2) ''sub'' @ [''clip.ts'']) = Some File \<and>
   sanity_check (dataset_with (nest (k + 2))) = [] \<and>
   build_1fps_video ok raw_dir (Some (nest (k + 2))) tmp_dir log0 = Inr (None, log0) \<and>
   (\<forall>seq \<in> set all_sequences.
      process_sequence ok mkdtemp finish ROOT (dataset_with (nest (k + 2))) seq sp log0 =
        Inr (log0 @ [Mkdir (OUT_DIR @ [sp, seq, ''gt'']), Print (NoVideoProduced seq),
                     Cleanup (mkdtemp (log0 @ [Mkdir (OUT_DIR @ [sp, seq, ''gt''])]))]))"
proof (intro conjI allI impI ballI)
  fix raw p c
  assume "resolve raw p = Some c \<and> p \<noteq> [] \<and> is_ts (last p)"
  then have "p \<in> set (rglob is_ts raw)" by (auto intro: rglob_resolve)
  then show "rglob is_ts raw \<noteq> []" by auto
next
  fix nd
  show "build_1fps_video ok raw_dir (Some (prune 2 nd)) tmp_dir log0 =
         build_1fps_video ok raw_dir (Some nd) tmp_dir log0"
    by (rule build_prune)
next
  have "resolve (nest n) (replicate n ''sub'' @ [''clip.ts'']) = Some File" for n
    by (induction n) simp_all
  then show "resolve (nest (k + 2)) (replicate (k + 2) ''sub'' @ [''clip.ts'']) = Some File" .
next
  show "sanity_check (dataset_with (nest (k + 2))) = []"
    by (rule sanity_check_dataset_with) (rule rglob_nest)
next
  show "build_1fps_video ok raw_dir (Some (nest (k + 2))) tmp_dir log0 = Inr (None, log0)"
    using build_nest [of ok raw_dir k tmp_dir log0] by (simp del: nest.simps)
next
  fix seq assume "seq \<in> set all_sequences"
  from process_sequence_nest [OF this, of ok mkdtemp finish ROOT k sp log0]
  show "process_sequence ok mkdtemp finish ROOT (dataset_with (nest (k + 2))) seq sp log0 =
        Inr (log0 @ [Mkdir (OUT_DIR @ [sp, seq, ''gt'']), Print (NoVideoProduced seq),
                     Cleanup (mkdtemp (log0 @ [Mkdir (OUT_DIR @ [sp, seq, ''gt''])]))])"
    by (simp del: nest.simps)
qed

theorem validation_deeper_than_assembly_witness:
  "resolve (nest 2) [''sub'', ''sub'', ''clip.ts''] = Some File \<and>
   is_ts (last [''sub'', ''sub'', ''clip.ts'']) \<and>
   rglob is_ts (nest 2) \<noteq> [] \<and>
   sanity_check (dataset_with (nest 2)) = [] \<and>
   build_1fps_video (\<lambda>acts cmd. True) [''OinkTrack'', ''C1D-1'', ''raw_videos''] (Some (nest 2)) [''tmp''] []
     = Inr (None, []) \<and>
   ''C1D-1'' \<in> set all_sequences \<and>
   process_sequence (\<lambda>acts cmd. True) (\<lambda>acts. [''tmp'']) (\<lambda>seq sp acts. Inr acts) [''OinkTrack'']
       (dataset_with (nest 2)) ''C1D-1'' ''train'' [] =
     Inr [Mkdir [''dataset'', ''train'', ''C1D-1'', ''gt''], Print (NoVideoProduced ''C1D-1''),
          Cleanup [''tmp'']]"
proof -
  note inst = validation_deeper_than_assembly [of "\<lambda>acts cmd. True"
      "[''OinkTrack'', ''C1D-1'', ''raw_videos'']" "[''tmp'']" "[]" 0 "\<lambda>acts. [''tmp'']"
      "\<lambda>seq sp acts. Inr acts" "[''OinkTrack'']" "''train''"]
  have r: "resolve (nest 2) [''sub'', ''sub'', ''clip.ts''] = Some File"
    by (simp add: numeral_2_eq_2)
  have t: "is_ts (last [''sub'', ''sub'', ''clip.ts''])"
    by (simp add: is_ts_clip)
  from inst have "resolve (nest 2) [''sub'', ''sub'', ''clip.ts''] = Some File \<and>
      [''sub'', ''sub'', ''clip.ts''] \<noteq> [] \<and> is_ts (last [''sub'', ''sub'', ''clip.ts''])
      \<longrightarrow> rglob is_ts (nest 2) \<noteq> []" by blast
  with r t have "rglob is_ts (nest 2) \<noteq> []" by simp
  moreover from inst have "sanity_check (dataset_with (nest 2)) = []"
    by (simp add: numeral_2_eq_2)
  moreover from inst have "build_1fps_video (\<lambda>acts cmd. True) [''OinkTrack'', ''C1D-1'', ''raw_videos'']
      (Some (nest 2)) [''tmp''] [] = Inr (None, [])" by (simp add: numeral_2_eq_2)
  moreover from inst C1D1_in_all have "process_sequence (\<lambda>acts cmd. True) (\<lambda>acts. [''tmp''])
       (\<lambda>seq sp acts. Inr acts) [''OinkTrack''] (dataset_with (nest 2)) ''C1D-1'' ''train'' [] =
     Inr [Mkdir [''dataset'', ''train'', ''C1D-1'', ''gt''], Print (NoVideoProduced ''C1D-1''),
          Cleanup [''tmp'']]"
    by (simp add: OUT_DIR_def numeral_2_eq_2)
  ultimately show ?thesis using r t C1D1_in_all by simp
qed

subsection \<open>Mask application\<close>

lemma map_of_mask_frames:
  assumes "distinct jpgs"
  shows "map_of (mask_frames imread imwrite resample msk jpgs files) n =
     (if n \<in> set jpgs then map_option (masked imread imwrite resample msk) (map_of files n)
      else map_of files n)"
  using assms
proof (induction jpgs arbitrary: files)
  case Nil
  then show ?case by simp
next
  case (Cons jpg jpgs)
  then have d: "distinct jpgs" and notin: "jpg \<notin> set jpgs" by simp_all
  note IH = Cons.IH [OF d]
  show ?case
  proof (cases "map_of files jpg")
    case None
    then show ?thesis by (auto simp: IH)
  next
    case (Some f)
    show ?thesis
    proof (cases "imread f")
      case None
      then have "masked imread imwrite resample msk f = f"
        by (simp add: masked_def)
      with Some None show ?thesis by (auto simp: IH)
    next
      case (Some img)
      then have "imwrite (multiply img (frame_mask resample img msk)) =
          masked imread imwrite resample msk f"
        by (simp add: masked_def)
      with \<open>map_of files jpg = Some f\<close> Some notin show ?thesis
        by (auto simp: IH update_conv' Let_def)
    qed
  qed
qed

lemma keys_mask_frames:
  "map fst (mask_frames imread imwrite resample msk jpgs files) = map fst files"
proof (induction jpgs arbitrary: files)
  case Nil
  then show ?case by simp
next
  case (Cons jpg jpgs)
  have "map fst (AList.update jpg v files) = map fst files" if "map_of files jpg = Some f" for v f
    using that by (auto simp: update_keys dest: map_of_SomeD intro: rev_image_eqI)
  then show ?case
    by (auto simp: Cons.IH Let_def split: option.splits)
qed

text \<open>
  C7: when reading the mask gives nothing, \<open>apply_mask\<close> prints the warning and
  leaves the frame directory exactly as it was. With a mask, nothing is printed, the
  directory keeps its files, a frame that cannot be read keeps its content, every frame
  that can be read is replaced by its masked image whatever the other frames are, and
  files that are no frames are not touched. No case raises.
\<close>

theorem apply_mask_lenient:
  assumes "distinct (map fst img_dir)"
  shows "apply_mask imread imwrite resample img_dir mask_path None =
           ([Print (MaskNotFound mask_path)], img_dir) \<and>
         fst (apply_mask imread imwrite resample img_dir mask_path (Some mask0)) = [] \<and>
         map fst (snd (apply_mask imread imwrite resample img_dir mask_path (Some mask0))) =
           map fst img_dir \<and>
         (\<forall>n f. map_of img_dir n = Some f \<longrightarrow>
            map_of (snd (apply_mask imread imwrite resample img_dir mask_path (Some mask0))) n =
              (if is_jpg n
               then (case imread f of
                       None \<Rightarrow> Some f
                     | Some img \<Rightarrow>
                         Some (imwrite (multiply img (frame_mask resample img (binarize mask0)))))
               else Some f))"
proof (intro conjI allI impI)
  show "apply_mask imread imwrite resample img_dir mask_path None =
           ([Print (MaskNotFound mask_path)], img_dir)"
    by (simp add: apply_mask_def)
  show "fst (apply_mask imread imwrite resample img_dir mask_path (Some mask0)) = []"
    by (simp add: apply_mask_def)
  show "map fst (snd (apply_mask imread imwrite resample img_dir mask_path (Some mask0))) =
           map fst img_dir"
    by (simp add: apply_mask_def keys_mask_frames)
next
  fix n f assume nf: "map_of img_dir n = Some f"
  then have mem: "n \<in> fst ` set img_dir"
    by (auto dest: map_of_SomeD intro: rev_image_eqI)
  let ?jpgs = "sort (filter is_jpg (map fst img_dir))"
  have "distinct ?jpgs"
    using assms by simp
  then have "map_of (mask_frames imread imwrite resample (binarize mask0) ?jpgs img_dir) n =
     (if n \<in> set ?jpgs
      then map_option (masked imread imwrite resample (binarize mask0)) (map_of img_dir n)
      else map_of img_dir n)"
    by (rule map_of_mask_frames)
  moreover have "n \<in> set ?jpgs \<longleftrightarrow> is_jpg n"
    using mem by simp
  ultimately have eq: "map_of (mask_frames imread imwrite resample (binarize mask0) ?jpgs img_dir) n =
     (if is_jpg n then Some (masked imread imwrite resample (binarize mask0) f) else Some f)"
    using nf by simp
  have m: "Some (masked imread imwrite resample (binarize mask0) f) =
      (case imread f of
         None \<Rightarrow> Some f
       | Some img \<Rightarrow> Some (imwrite (multiply img (frame_mask resample img (binarize mask0)))))"
    by (simp add: masked_def split: option.splits)
  show "map_of (snd (apply_mask imread imwrite resample img_dir mask_path (Some mask0))) n =
              (if is_jpg n
               then (case imread f of
                       None \<Rightarrow> Some f
                     | Some img \<Rightarrow>
                         Some (imwrite (multiply img (frame_mask resample img (binarize mask0)))))
               else Some f)"
    by (simp only: apply_mask_def option.case snd_conv eq m)
qed

theorem apply_mask_lenient_witness:
  "distinct (map fst example_frames) \<and>
   apply_mask (\<lambda>f. f) Some (\<lambda>i src dsize. src) example_frames [''masks'', ''C1_mask.png''] None =
     ([Print (MaskNotFound [''masks'', ''C1_mask.png''])], example_frames) \<and>
   fst (apply_mask (\<lambda>f. f) Some (\<lambda>i src dsize. src) example_frames [''masks'', ''C1_mask.png'']
          (Some example_mask)) = [] \<and>
   map_of example_frames ''00000001.jpg'' = Some None \<and>
   map_of (snd (apply_mask (\<lambda>f. f) Some (\<lambda>i src dsize. src) example_frames
                  [''masks'', ''C1_mask.png''] (Some example_mask))) ''00000001.jpg'' = Some None \<and>
   map_of example_frames ''00000002.jpg'' = Some (Some [[[10, 20, 30], [40, 50, 60]]]) \<and>
   map_of (snd (apply_mask (\<lambda>f. f) Some (\<lambda>i src dsize. src) example_frames
                  [''masks'', ''C1_mask.png''] (Some example_mask))) ''00000002.jpg'' =
     Some (Some [[[10, 20, 30], [0, 0, 0]]])"
proof -
  have d: "distinct (map fst example_frames)"
    by (simp add: example_frames_def)
  note inst = apply_mask_lenient [OF d, of "\<lambda>f. f" Some "\<lambda>i src dsize. src"
      "[''masks'', ''C1_mask.png'']" example_mask]
  have f1: "map_of example_frames ''00000001.jpg'' = Some None"
    and f2: "map_of example_frames ''00000002.jpg'' = Some (Some [[[10, 20, 30], [40, 50, 60]]])"
    by (simp_all add: example_frames_def)
  have j: "is_jpg ''00000001.jpg''" "is_jpg ''00000002.jpg''"
    by (simp_all add: is_jpg_def suffix_to_prefix)
  have m: "multiply [[[10, 20, 30], [40, 50, 60]]]
      (frame_mask (\<lambda>i src dsize. src) [[[10, 20, 30], [40, 50, 60]]] (binarize example_mask)) =
      [[[10, 20, 30], [0, 0, 0]]]"
    by (simp add: multiply_def frame_mask_def shape2_def binarize_def example_mask_def)
  from inst f1 j(1) have r1: "map_of (snd (apply_mask (\<lambda>f. f) Some (\<lambda>i src dsize. src) example_frames
                  [''masks'', ''C1_mask.png''] (Some example_mask))) ''00000001.jpg'' = Some None"
    by simp
  from inst f2 j(2) m have r2: "map_of (snd (apply_mask (\<lambda>f. f) Some (\<lambda>i src dsize. src) example_frames
                  [''masks'', ''C1_mask.png''] (Some example_mask))) ''00000002.jpg'' =
     Some (Some [[[10, 20, 30], [0, 0, 0]]])"
    by simp
  from inst d f1 f2 r1 r2 show ?thesis by (intro conjI) simp_all
qed

lemma binarize_values:
  "row \<in> set (binarize msk) \<Longrightarrow> m \<in> set row \<Longrightarrow> m = 0 \<or> m = 1"
  by (auto simp: binarize_def)

lemma map2_idem:
  assumes "\<And>x y. y \<in> set ys \<Longrightarrow> f (f x y) y = f x y"
  shows "map2 f (map2 f xs ys) ys = map2 f xs ys"
  using assms
proof (induction xs arbitrary: ys)
  case Nil
  then show ?case by simp
next
  case (Cons x xs)
  then show ?case by (cases ys) auto
qed

lemma multiply_idem:
  assumes "\<And>row m. row \<in> set msk \<Longrightarrow> m \<in> set row \<Longrightarrow> m = 0 \<or> m = 1"
  shows "multiply (multiply img msk) msk = multiply img msk"
  unfolding multiply_def
proof (rule map2_idem)
  fix row :: "pixel list" and mrow :: "8 word list"
  assume "mrow \<in> set msk"
  then have bin: "\<And>m. m \<in> set mrow \<Longrightarrow> m = 0 \<or> m = 1" using assms by blast
  show "map2 (\<lambda>px v. map (\<lambda>c. c * v) px) (map2 (\<lambda>px v. map (\<lambda>c. c * v) px) row mrow) mrow =
        map2 (\<lambda>px v. map (\<lambda>c. c * v) px) row mrow"
  proof (rule map2_idem)
    fix px :: pixel and v :: "8 word"
    assume "v \<in> set mrow"
    then have "v = 0 \<or> v = 1" by (rule bin)
    then show "map (\<lambda>c. c * v) (map (\<lambda>c. c * v) px) = map (\<lambda>c. c * v) px"
      by auto
  qed
qed

text \<open>
  C8: every value of a binarised mask is 0 or 1, for such a value \<open>m\<close> and every
  pixel value \<open>p\<close> we have \<open>p * m * m = p * m\<close>, and masking an image that is already
  masked with the same mask changes no pixel.
\<close>

theorem mask_idempotent:
  "(\<forall>row \<in> set (binarize msk). \<forall>m \<in> set row. (m = 0 \<or> m = 1) \<and> (\<forall>p. p * m * m = p * m)) \<and>
   multiply (multiply img (binarize msk)) (binarize msk) = multiply img (binarize msk)"
proof (intro conjI ballI allI)
  fix row m p assume "row \<in> set (binarize msk)" "m \<in> set row"
  then show m: "m = 0 \<or> m = 1" by (rule binarize_values)
  then show "p * m * m = p * m" by auto
next
  show "multiply (multiply img (binarize msk)) (binarize msk) = multiply img (binarize msk)"
    by (rule multiply_idem) (rule binarize_values)
qed

theorem mask_idempotent_witness:
  "[1, 0] \<in> set (binarize example_mask) \<and> (1 :: 8 word) \<in> set [1, 0] \<and>
   (200 * 1 * 1 :: 8 word) = 200 * 1 \<and>
   multiply (multiply [[[10, 20, 30], [40, 50, 60]]] (binarize example_mask)) (binarize example_mask) =
     multiply [[[10, 20, 30], [40, 50, 60]]] (binarize example_mask)"
proof -
  note inst = mask_idempotent [of example_mask "[[[10, 20, 30], [40, 50, 60]]]"]
  have b: "[1, 0] \<in> set (binarize example_mask)"
    by (simp add: binarize_def example_mask_def)
  have "(1 :: 8 word) \<in> set [1, 0]" by simp
  with inst b have "(200 * 1 * 1 :: 8 word) = 200 * 1" by blast
  with inst b show ?thesis by simp
qed

subsection \<open>The interpolation of the mask resize\<close>

text \<open>
  C6: the mask is resized exactly when its height and width differ from the frame's.
  The interpolation flag of the call is its third positional argument, which
  \<open>cv2.resize\<close> takes as the output array; the interpolation that is in effect is the
  default, \<open>INTER_LINEAR\<close>, not \<open>INTER_NEAREST\<close>.
\<close>

theorem frame_mask_interpolation:
  "frame_mask resample img msk =
     (if shape2 img = shape2 msk then msk
      else resample INTER_LINEAR msk (snd (shape2 img), fst (shape2 img)))"
  by (simp add: frame_mask_def cv2_resize_def)

subsection \<open>Sequence metadata\<close>

lemma write_seqinfo_Nil:
  "sort (filter is_jpg (map fst img1)) = [] \<Longrightarrow> write_seqinfo imread sname img1 = Inl RuntimeError"
  unfolding write_seqinfo_def Let_def by (simp only: list.case)

lemma write_seqinfo_Cons:
  "sort (filter is_jpg (map fst img1)) = first # others \<Longrightarrow>
   write_seqinfo imread sname img1 =
     (case Option.bind (map_of img1 first) imread of
        None \<Rightarrow> Inl AttributeError
      | Some img \<Rightarrow>
          Inr \<lparr>seq_name = sname, imDir = ''img1'', frameRate = 1,
               seqLength = length (filter is_jpg (map fst img1)),
               imWidth = snd (shape2 img), imHeight = fst (shape2 img),
               imExt = ''.jpg''\<rparr>)"
proof -
  assume a: "sort (filter is_jpg (map fst img1)) = first # others"
  have "length (sort (filter is_jpg (map fst img1))) = length (filter is_jpg (map fst img1))"
    by (rule length_sort)
  with a have l: "length (first # others) = length (filter is_jpg (map fst img1))"
    by (simp only:)
  show ?thesis
    unfolding write_seqinfo_def Let_def a list.case l ..
qed

lemma write_seqinfo_RuntimeError_iff:
  "write_seqinfo imread sname img1 = Inl RuntimeError \<longleftrightarrow> filter is_jpg (map fst img1) = []"
proof (cases "sort (filter is_jpg (map fst img1))")
  case Nil
  then have "filter is_jpg (map fst img1) = []"
    by (metis length_sort length_0_conv)
  with write_seqinfo_Nil [OF Nil] show ?thesis by simp
next
  case (Cons first others)
  then have "filter is_jpg (map fst img1) \<noteq> []"
    by (metis sort_key_simps(1) list.distinct(1))
  with write_seqinfo_Cons [OF Cons, of imread sname] show ?thesis
    by (simp split: option.splits)
qed

lemma write_seqinfo_seqLength:
  assumes "write_seqinfo imread sname img1 = Inr info"
  shows "seqLength info = length (filter is_jpg (map fst img1))"
proof (cases "sort (filter is_jpg (map fst img1))")
  case Nil
  from write_seqinfo_Nil [OF Nil, of imread sname] assms show ?thesis by simp
next
  case (Cons first others)
  from write_seqinfo_Cons [OF Cons, of imread sname] assms show ?thesis
    by (auto split: option.splits)
qed

text \<open>
  C4: \<open>write_seqinfo\<close> raises \<open>RuntimeError\<close> exactly when there is no frame file, and
  a descriptor it returns has the number of frame files as its sequence length. It also
  fails, with \<open>AttributeError\<close>, on a directory that has frame files when the first of
  them in sorted order cannot be read.
\<close>

theorem write_seqinfo_unreadable_first_frame:
  "write_seqinfo (\<lambda>f. f) ''C1D-1''
     [(''00000002.jpg'', Some [[[10, 20, 30], [40, 50, 60]]]), (''00000001.jpg'', None)] =
   Inl AttributeError"
  by (simp add: write_seqinfo_def is_jpg_def suffix_to_prefix)

end
